theory Spec2Isabelle
  imports Main
begin

section \<open>The worker pool of s5cmd (worker.go)\<close>

text \<open>
  The file worker.go holds the pool of workers that drains a queue of jobs. Every job is
  the head of a chain: it names a job to run after success and one to run after failure.
  The embedding below follows the file function by function. What the file calls on its
  collaborators (the action of a job, the log, the statistics, the job queue, the wait
  group) is recorded, in order, in a trace of events; what the collaborators answer (the
  result of an action, the outcome of a \<^verbatim>\<open>select\<close>) comes from an environment that the
  theorems quantify over.
\<close>

subsection \<open>Parameters and per-worker resources\<close>

record WorkerPoolParams =
  NumWorkers :: int
  ChunkSizeBytes :: int
  Retries :: int

text \<open>
  The three remote-storage handles of a worker are addresses of objects in a store of
  constructed resources (see \<open>resource\<close> below). The fields \<^verbatim>\<open>ctx\<close> and \<^verbatim>\<open>stats\<close> of
  the Go struct are references to objects shared by the whole pool; their effect is
  modelled by the \<^verbatim>\<open>select\<close> outcomes of the environment and by the events
  \<open>Incremented\<close>.
\<close>

record WorkerParams =
  s3svc :: nat
  s3dl :: nat
  s3ul :: nat
  poolParams :: WorkerPoolParams

subsection \<open>Jobs\<close>

text \<open>
  Modelled from the spec: the type \<^verbatim>\<open>Job\<close> is declared outside worker.go, which uses
  its method \<^verbatim>\<open>Run\<close>, its fields \<^verbatim>\<open>successCommand\<close> and \<^verbatim>\<open>failCommand\<close> and its text
  (what \<^verbatim>\<open>%s\<close> prints). By the spec a job has a display label, an action that is run with
  the worker's resources and returns success or an error, and two optional
  continuations. The action also receives the outside world and returns the new one;
  \<open>None\<close> stands for the nil pointer. A chain is a finite tree of jobs: the spec leaves
  it to the caller not to build a chain with a cycle.
\<close>

datatype ('e, 'w) Job =
  Job (label: string)
      (Run: "WorkerParams \<Rightarrow> 'w \<Rightarrow> 'e option \<times> 'w")
      (successCommand: "('e, 'w) Job option")
      (failCommand: "('e, 'w) Job option")

subsection \<open>Time and the backoff object\<close>

text \<open>Go's \<^verbatim>\<open>time.Duration\<close> counts nanoseconds.\<close>

definition Second :: int where
  "Second = 1000000000"

definition Minute :: int where
  "Minute = 60 * Second"

text \<open>
  Modelled from the spec: the type \<^verbatim>\<open>ExponentialBackOff\<close> belongs to the package
  \<^verbatim>\<open>backoff\<close>. worker.go sets its first three fields; the current interval is the
  fourth component of the spec's backoff state. Intervals are durations.
\<close>

record ExponentialBackOff =
  InitialInterval :: int
  MaxInterval :: int
  Multiplier :: int
  currentInterval :: int

text \<open>
  Modelled from the spec: the methods \<^verbatim>\<open>Reset\<close> and \<^verbatim>\<open>NextBackOff\<close> of the backoff
  object belong to the package \<^verbatim>\<open>backoff\<close>, which is not part of worker.go. The spec's
  data model gives the transition: the current interval is multiplied and capped at the
  maximum on a retryable failure, and the state returns to the initial interval on reset.
\<close>

definition Reset :: "ExponentialBackOff \<Rightarrow> ExponentialBackOff" where
  "Reset b = b\<lparr>currentInterval := InitialInterval b\<rparr>"

text \<open>
  Modelled from the spec: \<^verbatim>\<open>NextBackOff\<close> of the package \<^verbatim>\<open>backoff\<close> returns the
  current interval as the time to sleep and multiplies the current interval, capped at the
  maximum.
\<close>

definition NextBackOff :: "ExponentialBackOff \<Rightarrow> int \<times> ExponentialBackOff" where
  "NextBackOff b =
     (currentInterval b,
      b\<lparr>currentInterval := min (currentInterval b * Multiplier b) (MaxInterval b)\<rparr>)"

text \<open>
  Lines 83 to 87 of \<^verbatim>\<open>runWorker\<close>. The object \<open>b0\<close> is what
  \<^verbatim>\<open>backoff.NewExponentialBackOff()\<close> returns.
\<close>

definition newBackOff :: "ExponentialBackOff \<Rightarrow> ExponentialBackOff" where
  "newBackOff b0 =
     Reset (b0\<lparr>InitialInterval := Second, MaxInterval := Minute, Multiplier := 2\<rparr>)"

subsection \<open>Events and the state of a worker\<close>

text \<open>
  Modelled from the spec: the kinds of counters are declared outside worker.go, which
  uses these two, the terminal failures and the retries performed.
\<close>

datatype stat = STATS_FAIL | STATS_RETRYOP

text \<open>
  The lines that worker.go prints: the retry notice of line 104 with the job and the
  time to sleep, the error line of lines 114 and 136 with the job (or the command line)
  and the text of the error, the success line of line 118, and the read error of line
  186.
\<close>

datatype log_line =
  Ratelimit string int
| ERR string string
| OK string
| ReadERR string

text \<open>
  \<open>Ran l t c\<close> records a call of \<^verbatim>\<open>job.Run\<close> for the job labelled \<open>l\<close>, together
  with the value of \<^verbatim>\<open>tries\<close> and the current interval of the backoff object at the
  moment of the call. \<open>Printed\<close> is a call of \<^verbatim>\<open>log.Printf\<close> and \<open>Incremented\<close> a call
  of \<^verbatim>\<open>wp.stats.Increment\<close>.
\<close>

datatype event =
  Ran string int int
| Printed log_line
| Incremented stat
| WgDone

record 'w worker =
  wp :: WorkerParams
  world :: 'w
  bkf :: ExponentialBackOff
  run :: bool
  trace :: "event list"

text \<open>
  The environment of a worker: the error classifier and the error pretty-printer of the
  repository (both defined outside worker.go), and the outcome of the \<^verbatim>\<open>select\<close> of
  lines 105 to 111, which is \<open>True\<close> when the timer fires first and \<open>False\<close> when
  \<^verbatim>\<open>p.ctx.Done()\<close> is taken.
\<close>

record ('e, 'w) env =
  IsRatelimitError :: "'e \<Rightarrow> bool"
  CleanupError :: "'e \<Rightarrow> string"
  sleepSelect :: "int \<Rightarrow> 'w \<Rightarrow> bool \<times> 'w"

subsection \<open>The loop over a chain (lines 97 to 123)\<close>

text \<open>Lines 114 to 116 and 121 to 122: the terminal failure of a node.\<close>

definition failNode ::
  "('e, 'w) env \<Rightarrow> ('e, 'w) Job \<Rightarrow> 'e \<Rightarrow> 'w worker \<Rightarrow> ('e, 'w) Job option \<times> int \<times> 'w worker" where
  "failNode E job e s =
     (failCommand job, 0,
      s\<lparr>trace := trace s @ [Printed (ERR (label job) (CleanupError E e)), Incremented STATS_FAIL],
        bkf := Reset (bkf s)\<rparr>)"

text \<open>
  One pass through the body of \<^verbatim>\<open>for job != nil\<close>: the result is the next value of
  \<^verbatim>\<open>job\<close>, the next value of \<^verbatim>\<open>tries\<close> and the new state.
\<close>

definition chainStep ::
  "('e, 'w) env \<Rightarrow> ('e, 'w) Job \<Rightarrow> int \<Rightarrow> 'w worker \<Rightarrow> ('e, 'w) Job option \<times> int \<times> 'w worker" where
  "chainStep E job tries s =
     (let (err, w1) = Run job (wp s) (world s);
          s1 = s\<lparr>world := w1,
                 trace := trace s @ [Ran (label job) tries (currentInterval (bkf s))]\<rparr>
      in case err of
           None \<Rightarrow>
             (successCommand job, 0,
              s1\<lparr>trace := trace s1 @ [Printed (OK (label job))], bkf := Reset (bkf s1)\<rparr>)
         | Some e \<Rightarrow>
             if IsRatelimitError E e \<and> Retries (poolParams (wp s)) > 0
                \<and> tries < Retries (poolParams (wp s))
             then
               (let (sleepTime, b1) = NextBackOff (bkf s1);
                    s2 = s1\<lparr>bkf := b1,
                            trace := trace s1 @ [Printed (Ratelimit (label job) sleepTime)]\<rparr>;
                    (fired, w2) = sleepSelect E sleepTime (world s2);
                    s3 = s2\<lparr>world := w2\<rparr>
                in if fired
                   then (Some job, tries + 1,
                         s3\<lparr>trace := trace s3 @ [Incremented STATS_RETRYOP]\<rparr>)
                   else failNode E job e (s3\<lparr>run := False\<rparr>))
             else failNode E job e s1)"

function chainLoop ::
  "('e, 'w) env \<Rightarrow> ('e, 'w) Job option \<Rightarrow> int \<Rightarrow> 'w worker \<Rightarrow> 'w worker" where
  "chainLoop E None tries s = s"
| "chainLoop E (Some job) tries s =
     (case chainStep E job tries s of (jo, tries', s') \<Rightarrow> chainLoop E jo tries' s')"
  by pat_completeness auto

text \<open>
  The loop ends: a retry keeps the node and moves \<^verbatim>\<open>tries\<close> towards the retry budget,
  every other pass moves to a continuation, which is a smaller chain.
\<close>

termination
proof (relation "measures [\<lambda>(E, jo, tries, s). size_option size jo,
                           \<lambda>(E, jo, tries, s). nat (Retries (poolParams (wp s)) - tries)]")
  show "wf (measures [\<lambda>(E, jo, tries, s). size_option size jo,
                      \<lambda>(E, jo, tries, s). nat (Retries (poolParams (wp s)) - tries)])"
    by simp
next
  fix E :: "('e, 'w) env" and job :: "('e, 'w) Job" and tries :: int and s :: "'w worker"
    and jo y tries' s'
  assume "(jo, y) = chainStep E job tries s" and "(tries', s') = y"
  then have step: "chainStep E job tries s = (jo, tries', s')"
    by simp
  have "wp s' = wp s"
    using step
    by (auto simp: chainStep_def failNode_def Let_def split: prod.splits option.splits if_splits)
  moreover have "(jo = Some job \<and> tries' = tries + 1 \<and> tries < Retries (poolParams (wp s)))
         \<or> jo = successCommand job \<or> jo = failCommand job"
    using step
    by (auto simp: chainStep_def failNode_def Let_def split: prod.splits option.splits if_splits)
  moreover have "size_option size (successCommand job) < Suc (size job)"
    "size_option size (failCommand job) < Suc (size job)"
    by (cases job; simp)+
  ultimately show "((E, jo, tries', s'), (E, Some job, tries, s))
       \<in> measures [\<lambda>(E, jo, tries, s). size_option size jo,
                    \<lambda>(E, jo, tries, s). nat (Retries (poolParams (wp s)) - tries)]"
    by auto
qed

declare chainLoop.simps(2) [simp del]

text \<open>
  The state after a terminal failure that involves no sleep (lines 114 to 116 and 121 to
  122 after the test of line 101 has failed): the call of the action, the error line, the
  failure counter, the backoff object reset.
\<close>

definition terminalState ::
  "('e, 'w) env \<Rightarrow> ('e, 'w) Job \<Rightarrow> int \<Rightarrow> 'e \<Rightarrow> 'w \<Rightarrow> 'w worker \<Rightarrow> 'w worker" where
  "terminalState E job tries e w1 s =
     s\<lparr>world := w1,
       trace := trace s @ [Ran (label job) tries (currentInterval (bkf s)),
                           Printed (ERR (label job) (CleanupError E e)),
                           Incremented STATS_FAIL],
       bkf := Reset (bkf s)\<rparr>"

subsection \<open>The loop of a worker (lines 89 to 128)\<close>

text \<open>
  What the outer \<^verbatim>\<open>select\<close> of a worker yields, one value per pass: a job received from
  the queue (a pointer, possibly nil), the closed queue, or the canceled context.
\<close>

datatype ('e, 'w) recv =
  Received "('e, 'w) Job option"
| QueueClosed
| CtxDone

text \<open>
  The list holds what the \<^verbatim>\<open>select\<close> yields from now on. The loop tests \<^verbatim>\<open>run\<close> before
  every \<^verbatim>\<open>select\<close>. When the list is used up while \<^verbatim>\<open>run\<close> still holds, the worker is
  left waiting in the \<^verbatim>\<open>select\<close>.
\<close>

fun workerLoop :: "('e, 'w) env \<Rightarrow> ('e, 'w) recv list \<Rightarrow> 'w worker \<Rightarrow> 'w worker" where
  "workerLoop E [] s = s"
| "workerLoop E (r # rs) s =
     (if \<not> run s then s
      else case r of
             Received job \<Rightarrow> workerLoop E rs (chainLoop E job 0 s)
           | QueueClosed \<Rightarrow> workerLoop E rs (s\<lparr>run := False\<rparr>)
           | CtxDone \<Rightarrow> workerLoop E rs (s\<lparr>run := False\<rparr>))"

subsection \<open>The resources of a worker (lines 71 to 81)\<close>

text \<open>
  Modelled from the spec: the constructors \<^verbatim>\<open>s3.New\<close>, \<^verbatim>\<open>s3manager.NewDownloader\<close>
  and \<^verbatim>\<open>s3manager.NewUploader\<close> belong to the AWS packages, which are not part of
  worker.go. By the spec each call constructs a resource of its own; the store records the
  constructed objects, the address of an object is its position, and every object notes
  the session it was built from.
\<close>

datatype resource =
  S3Client nat
| Downloader nat
| Uploader nat int

definition construct :: "resource \<Rightarrow> resource list \<Rightarrow> nat \<times> resource list" where
  "construct r h = (length h, h @ [r])"

definition newWorkerParams ::
  "nat \<Rightarrow> WorkerPoolParams \<Rightarrow> resource list \<Rightarrow> WorkerParams \<times> resource list" where
  "newWorkerParams ses ps h =
     (let (a1, h1) = construct (S3Client ses) h;
          (a2, h2) = construct (Downloader ses) h1;
          (a3, h3) = construct (Uploader ses (ChunkSizeBytes ps)) h2
      in (\<lparr>s3svc = a1, s3dl = a2, s3ul = a3, poolParams = ps\<rparr>, h3))"

text \<open>
  \<^verbatim>\<open>runWorker\<close>: the resources, the backoff object, the loop, and the deferred
  \<^verbatim>\<open>p.wg.Done()\<close>, which runs when the loop has been left and the function returns. The
  arguments are the session and the parameters of the pool, the object \<open>b0\<close> returned by
  \<^verbatim>\<open>backoff.NewExponentialBackOff()\<close>, the store, what the worker's \<^verbatim>\<open>select\<close> yields,
  and the outside world.
\<close>

definition runWorker ::
  "('e, 'w) env \<Rightarrow> nat \<Rightarrow> WorkerPoolParams \<Rightarrow> ExponentialBackOff \<Rightarrow> resource list
     \<Rightarrow> ('e, 'w) recv list \<Rightarrow> 'w \<Rightarrow> 'w worker \<times> resource list" where
  "runWorker E ses ps b0 h rs w =
     (let (wparams, h') = newWorkerParams ses ps h;
          s0 = \<lparr>wp = wparams, world = w, bkf = newBackOff b0, run = True, trace = []\<rparr>;
          s = workerLoop E rs s0
      in (if run s then s else s\<lparr>trace := trace s @ [WgDone]\<rparr>, h'))"

subsection \<open>The pool\<close>

text \<open>
  A function of worker.go ends in one of three ways: \<^verbatim>\<open>log.Fatal\<close> (the process exits),
  a panic, or a return.
\<close>

datatype ('e, 'a) outcome =
  Fatal 'e
| Panicked
| Returned 'a

definition andThen :: "('e, 'a) outcome \<Rightarrow> ('a \<Rightarrow> ('e, 'b) outcome) \<Rightarrow> ('e, 'b) outcome" where
  "andThen m f = (case m of Fatal e \<Rightarrow> Fatal e | Panicked \<Rightarrow> Panicked | Returned a \<Rightarrow> f a)"

text \<open>
  The values a context can carry: a cancel function (named by a number), or a value of
  another dynamic type. A context maps keys to values; a missing key yields nil.
\<close>

datatype ctx_value =
  CancelFunc nat
| OtherValue string

type_synonym Context = "string \<Rightarrow> ctx_value option"

text \<open>
  What the pool does to its queue, its wait group, the log, the statistics and the input
  file, in order.
\<close>

datatype ('e, 'w) pool_event =
  Send "('e, 'w) Job option"
| Close
| Wait
| Print log_line
| Increment stat
| CloseFile

text \<open>
  The pool: the fields of the Go struct that the functions below use, the state of the
  queue (open or closed), the counter of the wait group, the events so far, the workers
  started so far (each with the resources it constructed) and the store of resources.
\<close>

record ('e, 'w) WorkerPool =
  params :: WorkerPoolParams
  awsSession :: nat
  cancelFunc :: nat
  wg :: int
  jobQueueClosed :: bool
  events :: "('e, 'w) pool_event list"
  workers :: "WorkerParams list"
  store :: "resource list"

text \<open>
  \<^verbatim>\<open>go p.runWorker(stats)\<close>: the started worker constructs its resources (lines 71 to
  81 of \<^verbatim>\<open>runWorker\<close>).
\<close>

definition goRunWorker :: "('e, 'w) WorkerPool \<Rightarrow> ('e, 'w) WorkerPool" where
  "goRunWorker p =
     (let (wparams, h') = newWorkerParams (awsSession p) (params p) (store p)
      in p\<lparr>workers := workers p @ [wparams], store := h'\<rparr>)"

text \<open>Lines 60 to 63: \<^verbatim>\<open>for i := 0; i < params.NumWorkers; i++\<close>.\<close>

function spawnLoop :: "int \<Rightarrow> int \<Rightarrow> ('e, 'w) WorkerPool \<Rightarrow> ('e, 'w) WorkerPool" where
  "spawnLoop i n p =
     (if i < n then spawnLoop (i + 1) n (goRunWorker (p\<lparr>wg := wg p + 1\<rparr>)) else p)"
  by pat_completeness auto

termination
  by (relation "measure (\<lambda>(i, n, p). nat (n - i))") auto

declare spawnLoop.simps [simp del]

text \<open>
  \<^verbatim>\<open>NewWorkerPool\<close>. The argument \<open>ses\<close> is what \<^verbatim>\<open>session.NewSession\<close> returns: an
  error or a session; \<open>h\<close> is the store before the call.
\<close>

definition NewWorkerPool ::
  "Context \<Rightarrow> WorkerPoolParams \<Rightarrow> 'e + nat \<Rightarrow> resource list
     \<Rightarrow> ('e, ('e, 'w) WorkerPool) outcome" where
  "NewWorkerPool ctx ps ses h =
     (case ses of
        Inl err \<Rightarrow> Fatal err
      | Inr ses' \<Rightarrow>
          (case ctx ''cancelFunc'' of
             Some (CancelFunc c) \<Rightarrow>
               Returned (spawnLoop 0 (NumWorkers ps)
                 \<lparr>params = ps, awsSession = ses', cancelFunc = c, wg = 0,
                  jobQueueClosed = False, events = [], workers = [], store = h\<rparr>)
           | _ \<Rightarrow> Panicked))"

subsection \<open>Submitting jobs\<close>

text \<open>
  The environment of the feeder: the parser of the repository (defined outside
  worker.go), which returns an error or a job pointer, and the text of an error.
\<close>

record ('e, 'w) feeder_env =
  ParseJob :: "string \<Rightarrow> 'e + ('e, 'w) Job option"
  ErrorText :: "'e \<Rightarrow> string"

text \<open>Which case the \<^verbatim>\<open>select\<close> of lines 141 to 145 takes.\<close>

datatype select_outcome = TakeDone | TakeSend

text \<open>In Go, closing a closed channel panics, and so does sending on one.\<close>

definition closeQueue :: "('e, 'w) WorkerPool \<Rightarrow> ('e, ('e, 'w) WorkerPool) outcome" where
  "closeQueue p =
     (if jobQueueClosed p then Panicked
      else Returned (p\<lparr>jobQueueClosed := True, events := events p @ [Close]\<rparr>))"

definition wgWait :: "('e, 'w) WorkerPool \<Rightarrow> ('e, 'w) WorkerPool" where
  "wgWait p = p\<lparr>events := events p @ [Wait]\<rparr>"

definition singleRun ::
  "('e, 'w) feeder_env \<Rightarrow> string \<Rightarrow> select_outcome \<Rightarrow> ('e, 'w) WorkerPool
     \<Rightarrow> ('e, bool \<times> ('e, 'w) WorkerPool) outcome" where
  "singleRun F line sel p =
     (case ParseJob F line of
        Inl err \<Rightarrow>
          Returned (True, p\<lparr>events := events p @
                      [Print (ERR line (ErrorText F err)), Increment STATS_FAIL]\<rparr>)
      | Inr job \<Rightarrow>
          (case sel of
             TakeDone \<Rightarrow> Returned (False, p)
           | TakeSend \<Rightarrow>
               if jobQueueClosed p then Panicked
               else Returned (True, p\<lparr>events := events p @ [Send job]\<rparr>)))"

definition RunCmd ::
  "('e, 'w) feeder_env \<Rightarrow> string \<Rightarrow> select_outcome \<Rightarrow> ('e, 'w) WorkerPool
     \<Rightarrow> ('e, ('e, 'w) WorkerPool) outcome" where
  "RunCmd F commandLine sel p =
     andThen (singleRun F commandLine sel p) (\<lambda>(r, p1).
     andThen (closeQueue p1) (\<lambda>p2. Returned (wgWait p2)))"

subsection \<open>The streaming run (lines 156 to 200)\<close>

text \<open>
  The error of \<^verbatim>\<open>ReadOne\<close> that ends the input: \<^verbatim>\<open>io.EOF\<close>, \<^verbatim>\<open>context.Canceled\<close>, or
  another error. A source delivers its lines, each with the outcome of the \<^verbatim>\<open>select\<close>
  of its submission, and then ends with one of these errors.
\<close>

datatype 'e read_error = EOF | Canceled | ReadError 'e

record 'e source =
  lines :: "(string \<times> select_outcome) list"
  ending :: "'e read_error"

text \<open>
  Lines 174 to 192. The result is the value of \<^verbatim>\<open>closed\<close> and the pool when the loop is
  left.
\<close>

fun feedLoop ::
  "('e, 'w) feeder_env \<Rightarrow> (string \<times> select_outcome) list \<Rightarrow> 'e read_error
     \<Rightarrow> ('e, 'w) WorkerPool \<Rightarrow> ('e, bool \<times> ('e, 'w) WorkerPool) outcome" where
  "feedLoop F [] final p =
     (case final of
        EOF \<Rightarrow> andThen (closeQueue p) (\<lambda>p'. Returned (True, p'))
      | Canceled \<Rightarrow> Returned (False, p)
      | ReadError e \<Rightarrow>
          Returned (False, p\<lparr>events := events p @ [Print (ReadERR (ErrorText F e))]\<rparr>))"
| "feedLoop F ((line, sel) # rest) final p =
     andThen (singleRun F line sel p) (\<lambda>(r, p').
       if r then feedLoop F rest final p' else Returned (False, p'))"

text \<open>Lines 170 to 199, once the reader is open.\<close>

definition feed ::
  "('e, 'w) feeder_env \<Rightarrow> 'e source \<Rightarrow> ('e, 'w) WorkerPool
     \<Rightarrow> ('e, ('e, 'w) WorkerPool) outcome" where
  "feed F r p =
     andThen (feedLoop F (lines r) (ending r) p) (\<lambda>(closed, p1).
       let p2 = wgWait p1
       in if \<not> closed then closeQueue p2 else Returned p2)"

text \<open>
  \<^verbatim>\<open>Run\<close>. The argument \<open>stdin\<close> is the standard input and \<open>fs\<close> is \<^verbatim>\<open>os.Open\<close>: an
  error or the source behind a file name. The deferred \<^verbatim>\<open>r.Close()\<close> runs when the
  function returns.
\<close>

definition Run_pool ::
  "('e, 'w) feeder_env \<Rightarrow> string \<Rightarrow> 'e source \<Rightarrow> (string \<Rightarrow> 'e + 'e source)
     \<Rightarrow> ('e, 'w) WorkerPool \<Rightarrow> ('e, ('e, 'w) WorkerPool) outcome" where
  "Run_pool F filename stdin fs p =
     (if filename = ''-'' then feed F stdin p
      else case fs filename of
             Inl err \<Rightarrow> Fatal err
           | Inr r \<Rightarrow>
               andThen (feed F r p) (\<lambda>p'.
                 Returned (p'\<lparr>events := events p' @ [CloseFile]\<rparr>)))"

subsection \<open>Reading a trace\<close>

text \<open>The labels of the jobs whose action was called, in the order of the calls.\<close>

fun attempts :: "event list \<Rightarrow> string list" where
  "attempts [] = []"
| "attempts (Ran l t c # es) = l # attempts es"
| "attempts (e # es) = attempts es"

text \<open>
  The sleep times of the retries, node by node: the times of the lines \<open>Ratelimit\<close>
  are collected until a line \<open>OK\<close> or \<open>ERR\<close> closes the node. The last list is
  that of the node still open at the end of the trace.
\<close>

fun retrySleeps :: "int list \<Rightarrow> event list \<Rightarrow> int list list" where
  "retrySleeps acc [] = [acc]"
| "retrySleeps acc (Printed (Ratelimit l d) # es) = retrySleeps (acc @ [d]) es"
| "retrySleeps acc (Printed (OK l) # es) = acc # retrySleeps [] es"
| "retrySleeps acc (Printed (ERR l m) # es) = acc # retrySleeps [] es"
| "retrySleeps acc (e # es) = retrySleeps acc es"

text \<open>
  The interval that the backoff object of a worker holds after \<open>k\<close> calls of
  \<^verbatim>\<open>NextBackOff\<close> since the last reset: one second doubled \<open>k\<close> times, capped at one
  minute.
\<close>

definition interval :: "nat \<Rightarrow> int" where
  "interval k = min (Second * 2 ^ k) Minute"

text \<open>The backoff object as lines 84 to 86 configure it.\<close>

definition configured :: "ExponentialBackOff \<Rightarrow> bool" where
  "configured b \<longleftrightarrow> InitialInterval b = Second \<and> MaxInterval b = Minute \<and> Multiplier b = 2"

text \<open>A list of sleep times that follows the intervals from the first one on.\<close>

definition good :: "int list \<Rightarrow> bool" where
  "good ds \<longleftrightarrow> ds = map interval [0..<length ds]"

text \<open>
  A call of an action that was made with a value of \<^verbatim>\<open>tries\<close> that is not negative,
  while the backoff object held the interval of that many calls.
\<close>

fun attemptOK :: "event \<Rightarrow> bool" where
  "attemptOK (Ran l t c) = (0 \<le> t \<and> c = interval (nat t))"
| "attemptOK e = True"

text \<open>
  The invariant of the chain loop, at the start of each pass: the backoff object holds
  the interval that belongs to \<^verbatim>\<open>tries\<close>, the sleep times of the closed nodes follow
  the intervals, and the open node has slept \<^verbatim>\<open>tries\<close> times so far.
\<close>

definition nodeInv :: "int \<Rightarrow> 'w worker \<Rightarrow> bool" where
  "nodeInv tries s \<longleftrightarrow>
     0 \<le> tries \<and> configured (bkf s) \<and> currentInterval (bkf s) = interval (nat tries)
     \<and> list_all attemptOK (trace s)
     \<and> list_all good (butlast (retrySleeps [] (trace s)))
     \<and> last (retrySleeps [] (trace s)) = map interval [0..<nat tries]"

text \<open>
  What a list of pool events does to the queue and the wait group: the events \<open>Close\<close>
  and \<open>Wait\<close>, in order.
\<close>

fun syncEvents :: "('e, 'w) pool_event list \<Rightarrow> ('e, 'w) pool_event list" where
  "syncEvents [] = []"
| "syncEvents (Close # es) = Close # syncEvents es"
| "syncEvents (Wait # es) = Wait # syncEvents es"
| "syncEvents (e # es) = syncEvents es"

text \<open>
  A line whose submission is cut short: it parses to a job, and the \<^verbatim>\<open>select\<close> of its
  submission takes the case of the canceled context.
\<close>

definition aborted :: "('e, 'w) feeder_env \<Rightarrow> string \<times> select_outcome \<Rightarrow> bool" where
  "aborted F l = (case ParseJob F (fst l) of Inl e \<Rightarrow> False | Inr job \<Rightarrow> snd l = TakeDone)"

text \<open>The addresses of the three resources of a worker.\<close>

definition handles :: "WorkerParams \<Rightarrow> nat list" where
  "handles w = [s3svc w, s3dl w, s3ul w]"

text \<open>
  The resources of a worker are what lines 72 to 77 construct: a service client, a
  downloader and an uploader, each built from the session of the pool, the uploader with
  the part size of the pool's parameters.
\<close>

definition ownResources :: "('e, 'w) WorkerPool \<Rightarrow> WorkerParams \<Rightarrow> bool" where
  "ownResources p w \<longleftrightarrow>
     store p ! s3svc w = S3Client (awsSession p)
     \<and> store p ! s3dl w = Downloader (awsSession p)
     \<and> store p ! s3ul w = Uploader (awsSession p) (ChunkSizeBytes (params p))
     \<and> poolParams w = params p"

text \<open>
  The invariant of the loop that starts the workers, for a store that held \<open>n0\<close>
  objects before the pool was constructed.
\<close>

definition poolInv :: "nat \<Rightarrow> ('e, 'w) WorkerPool \<Rightarrow> bool" where
  "poolInv n0 p \<longleftrightarrow>
     n0 \<le> length (store p)
     \<and> distinct (concat (map handles (workers p)))
     \<and> (\<forall>w \<in> set (workers p). \<forall>a \<in> set (handles w). n0 \<le> a \<and> a < length (store p))
     \<and> (\<forall>w \<in> set (workers p). ownResources p w)"

subsection \<open>A concrete worker\<close>

text \<open>
  Three kinds of error, of which only \<open>SlowDown\<close> is a rate-limit error; the world counts
  the calls of actions; no \<^verbatim>\<open>select\<close> is ever canceled in \<open>exEnv\<close>.
\<close>

datatype s3error = SlowDown | NoSuchKey | BadCommand

definition exEnv :: "(s3error, nat) env" where
  "exEnv = \<lparr>IsRatelimitError = (\<lambda>e. e = SlowDown),
            CleanupError = (\<lambda>e. case e of SlowDown \<Rightarrow> ''SlowDown'' | NoSuchKey \<Rightarrow> ''NoSuchKey''
                                 | BadCommand \<Rightarrow> ''BadCommand''),
            sleepSelect = (\<lambda>d w. (True, w))\<rparr>"

definition throttled :: "(s3error, nat) Job" where
  "throttled = Job ''cp a b'' (\<lambda>p w. (Some SlowDown, Suc w)) None None"

definition exWorker :: "nat worker" where
  "exWorker =
     \<lparr>wp = \<lparr>s3svc = 0, s3dl = 1, s3ul = 2,
             poolParams = \<lparr>NumWorkers = 1, ChunkSizeBytes = 5242880, Retries = 2\<rparr>\<rparr>,
      world = 0,
      bkf = \<lparr>InitialInterval = Second, MaxInterval = Minute, Multiplier = 2,
             currentInterval = Second\<rparr>,
      run = True,
      trace = []\<rparr>"

text \<open>
  An environment in which every sleep is cut short by the canceled context, and some
  more jobs: one that fails with an error that is no rate-limit error, and two chains.
\<close>

definition cancelEnv :: "(s3error, nat) env" where
  "cancelEnv = exEnv\<lparr>sleepSelect := (\<lambda>d w. (False, w))\<rparr>"

definition missing :: "(s3error, nat) Job" where
  "missing = Job ''ls x'' (\<lambda>p w. (Some NoSuchKey, Suc w)) None None"

definition cleanup :: "(s3error, nat) Job" where
  "cleanup = Job ''rm b'' (\<lambda>p w. (None, Suc w)) None None"

definition report :: "(s3error, nat) Job" where
  "report = Job ''ls b'' (\<lambda>p w. (None, Suc w)) None None"

definition move :: "(s3error, nat) Job" where
  "move = Job ''mv a b'' (\<lambda>p w. (Some SlowDown, Suc w)) (Some report) (Some cleanup)"

definition copy :: "(s3error, nat) Job" where
  "copy = Job ''cp c d'' (\<lambda>p w. (None, Suc w)) (Some report) (Some cleanup)"

definition broken :: "(s3error, nat) Job" where
  "broken = Job ''cp e f'' (\<lambda>p w. (Some NoSuchKey, Suc w)) (Some report) (Some cleanup)"

text \<open>
  A backoff object before its configuration, a pool with a retry budget of 8, and a
  worker in the middle of the retries of a node (two retries done).
\<close>

definition zeroBackOff :: ExponentialBackOff where
  "zeroBackOff = \<lparr>InitialInterval = 0, MaxInterval = 0, Multiplier = 0, currentInterval = 0\<rparr>"

definition params8 :: WorkerPoolParams where
  "params8 = \<lparr>NumWorkers = 1, ChunkSizeBytes = 5242880, Retries = 8\<rparr>"

definition midRetry :: "nat worker" where
  "midRetry = exWorker\<lparr>bkf := (bkf exWorker)\<lparr>currentInterval := 4 * Second\<rparr>\<rparr>"

text \<open>
  A parser that knows two command lines, a pool as \<^verbatim>\<open>NewWorkerPool\<close> leaves its queue
  (open, nothing sent), a standard input of two lines, and a file \<^verbatim>\<open>jobs.txt\<close> whose
  second line is submitted when the context is canceled.
\<close>

definition exF :: "(s3error, nat) feeder_env" where
  "exF = \<lparr>ParseJob = (\<lambda>l. if l = ''cp c d'' then Inr (Some copy)
                         else if l = ''mv a b'' then Inr (Some move)
                         else Inl BadCommand),
          ErrorText = (\<lambda>e. ''unknown command'')\<rparr>"

definition exPool :: "(s3error, nat) WorkerPool" where
  "exPool = \<lparr>params = params8, awsSession = 0, cancelFunc = 0, wg = 0,
             jobQueueClosed = False, events = [], workers = [], store = []\<rparr>"

definition exStdin :: "s3error source" where
  "exStdin = \<lparr>lines = [(''cp c d'', TakeSend), (''??'', TakeSend)], ending = EOF\<rparr>"

definition exFile :: "s3error source" where
  "exFile = \<lparr>lines = [(''cp c d'', TakeSend), (''mv a b'', TakeDone), (''cp c d'', TakeSend)],
             ending = EOF\<rparr>"

definition exFs :: "string \<Rightarrow> s3error + s3error source" where
  "exFs name = (if name = ''jobs.txt'' then Inr exFile else Inl NoSuchKey)"

text \<open>
  Three contexts: one that carries a cancel function under the key \<^verbatim>\<open>cancelFunc\<close>, one
  that carries nothing, and one that carries a value of another type under that key. A
  pool of three workers, and what \<^verbatim>\<open>NewWorkerPool\<close> builds for it on an empty store from
  session 7.
\<close>

definition goodContext :: Context where
  "goodContext = (\<lambda>k. if k = ''cancelFunc'' then Some (CancelFunc 1) else None)"

definition emptyContext :: Context where
  "emptyContext = (\<lambda>k. None)"

definition wrongContext :: Context where
  "wrongContext = (\<lambda>k. if k = ''cancelFunc'' then Some (OtherValue ''func()'') else None)"

definition params3 :: WorkerPoolParams where
  "params3 = \<lparr>NumWorkers = 3, ChunkSizeBytes = 5242880, Retries = 2\<rparr>"

definition builtPool :: "(string, nat) WorkerPool" where
  "builtPool =
     \<lparr>params = params3, awsSession = 7, cancelFunc = 1, wg = 3, jobQueueClosed = False,
      events = [],
      workers = [\<lparr>s3svc = 0, s3dl = 1, s3ul = 2, poolParams = params3\<rparr>,
                 \<lparr>s3svc = 3, s3dl = 4, s3ul = 5, poolParams = params3\<rparr>,
                 \<lparr>s3svc = 6, s3dl = 7, s3ul = 8, poolParams = params3\<rparr>],
      store = [S3Client 7, Downloader 7, Uploader 7 5242880,
               S3Client 7, Downloader 7, Uploader 7 5242880,
               S3Client 7, Downloader 7, Uploader 7 5242880]\<rparr>"

section \<open>Properties\<close>

lemmas ex_defs = exEnv_def cancelEnv_def exWorker_def throttled_def missing_def cleanup_def
  report_def move_def copy_def

subsection \<open>One pass of the chain loop, case by case\<close>

lemma chainStep_success:
  assumes "Run job (wp s) (world s) = (None, w1)"
  shows "chainStep E job tries s =
           (successCommand job, 0,
            s\<lparr>world := w1,
              trace := trace s @ [Ran (label job) tries (currentInterval (bkf s)),
                                  Printed (OK (label job))],
              bkf := Reset (bkf s)\<rparr>)"
  using assms by (simp add: chainStep_def)

lemma chainStep_terminal:
  assumes "Run job (wp s) (world s) = (Some e, w1)"
    and "\<not> (IsRatelimitError E e \<and> Retries (poolParams (wp s)) > 0
            \<and> tries < Retries (poolParams (wp s)))"
  shows "chainStep E job tries s =
           (failCommand job, 0,
            s\<lparr>world := w1,
              trace := trace s @ [Ran (label job) tries (currentInterval (bkf s)),
                                  Printed (ERR (label job) (CleanupError E e)),
                                  Incremented STATS_FAIL],
              bkf := Reset (bkf s)\<rparr>)"
  using assms by (auto simp add: chainStep_def failNode_def)

lemma chainStep_retry:
  assumes "Run job (wp s) (world s) = (Some e, w1)"
    and "IsRatelimitError E e" and "Retries (poolParams (wp s)) > 0"
    and "tries < Retries (poolParams (wp s))"
    and "sleepSelect E (currentInterval (bkf s)) w1 = (True, w2)"
  shows "chainStep E job tries s =
           (Some job, tries + 1,
            s\<lparr>world := w2,
              trace := trace s @ [Ran (label job) tries (currentInterval (bkf s)),
                                  Printed (Ratelimit (label job) (currentInterval (bkf s))),
                                  Incremented STATS_RETRYOP],
              bkf := snd (NextBackOff (bkf s))\<rparr>)"
  using assms by (simp add: chainStep_def NextBackOff_def)

lemma chainStep_canceled:
  assumes "Run job (wp s) (world s) = (Some e, w1)"
    and "IsRatelimitError E e" and "Retries (poolParams (wp s)) > 0"
    and "tries < Retries (poolParams (wp s))"
    and "sleepSelect E (currentInterval (bkf s)) w1 = (False, w2)"
  shows "chainStep E job tries s =
           (failCommand job, 0,
            s\<lparr>world := w2,
              trace := trace s @ [Ran (label job) tries (currentInterval (bkf s)),
                                  Printed (Ratelimit (label job) (currentInterval (bkf s))),
                                  Printed (ERR (label job) (CleanupError E e)),
                                  Incremented STATS_FAIL],
              bkf := Reset (bkf s),
              run := False\<rparr>)"
  using assms by (simp add: chainStep_def NextBackOff_def failNode_def Reset_def)

lemma attempts_append: "attempts (xs @ ys) = attempts xs @ attempts ys"
  by (induction xs rule: attempts.induct) simp_all

lemma ratelimited_from:
  fixes E :: "('e, 'w) env" and job :: "('e, 'w) Job" and s :: "'w worker"
  assumes rl: "\<forall>p w. \<exists>e w'. Run job p w = (Some e, w') \<and> IsRatelimitError E e"
    and nocancel: "\<forall>d w. fst (sleepSelect E d w)"
    and R: "0 < Retries (poolParams (wp s))"
    and le: "tries \<le> Retries (poolParams (wp s))"
  shows "\<exists>s' t. chainLoop E (Some job) tries s = chainLoop E (failCommand job) 0 s'
          \<and> trace s' = trace s @ t
          \<and> attempts t = replicate (nat (Retries (poolParams (wp s)) - tries) + 1) (label job)
          \<and> count_list t (Incremented STATS_RETRYOP) = nat (Retries (poolParams (wp s)) - tries)
          \<and> count_list t (Incremented STATS_FAIL) = 1
          \<and> run s' = run s \<and> wp s' = wp s"
  using R le
proof (induction "nat (Retries (poolParams (wp s)) - tries)" arbitrary: tries s)
  case 0
  obtain e w1 where run1: "Run job (wp s) (world s) = (Some e, w1)"
    using rl by blast
  from 0 have "\<not> tries < Retries (poolParams (wp s))"
    by simp
  define s1 where "s1 = s\<lparr>world := w1,
              trace := trace s @ [Ran (label job) tries (currentInterval (bkf s)),
                                  Printed (ERR (label job) (CleanupError E e)),
                                  Incremented STATS_FAIL],
              bkf := Reset (bkf s)\<rparr>"
  from \<open>\<not> tries < Retries (poolParams (wp s))\<close>
  have step: "chainStep E job tries s = (failCommand job, 0, s1)"
    unfolding s1_def using chainStep_terminal [OF run1] by simp
  show ?case
    apply (rule exI [where x = s1])
    apply (rule exI [where x = "[Ran (label job) tries (currentInterval (bkf s)),
                                  Printed (ERR (label job) (CleanupError E e)),
                                  Incremented STATS_FAIL]"])
    using 0 by (simp add: chainLoop.simps(2) step s1_def)
next
  case (Suc n)
  let ?R = "Retries (poolParams (wp s))"
  from Suc have lt: "tries < ?R"
    by simp
  obtain e w1 where run1: "Run job (wp s) (world s) = (Some e, w1)"
    and isrl: "IsRatelimitError E e"
    using rl by blast
  obtain w2 where sl: "sleepSelect E (currentInterval (bkf s)) w1 = (True, w2)"
    using nocancel by (metis (full_types) prod.collapse)
  define s1 where "s1 = s\<lparr>world := w2,
              trace := trace s @ [Ran (label job) tries (currentInterval (bkf s)),
                                  Printed (Ratelimit (label job) (currentInterval (bkf s))),
                                  Incremented STATS_RETRYOP],
              bkf := snd (NextBackOff (bkf s))\<rparr>"
  have step: "chainStep E job tries s = (Some job, tries + 1, s1)"
    unfolding s1_def using chainStep_retry [OF run1 isrl _ lt sl] Suc.prems by simp
  have wp1: "wp s1 = wp s"
    by (simp add: s1_def)
  have n: "n = nat (Retries (poolParams (wp s1)) - (tries + 1))"
    using Suc.hyps(2) by (simp add: wp1)
  have "0 < Retries (poolParams (wp s1))" "tries + 1 \<le> Retries (poolParams (wp s1))"
    using Suc.prems lt by (simp_all add: wp1)
  from Suc.hyps(1) [OF n this]
  obtain s' t where ih: "chainLoop E (Some job) (tries + 1) s1 = chainLoop E (failCommand job) 0 s'"
    "trace s' = trace s1 @ t"
    "attempts t = replicate (n + 1) (label job)"
    "count_list t (Incremented STATS_RETRYOP) = n"
    "count_list t (Incremented STATS_FAIL) = 1"
    "run s' = run s1" "wp s' = wp s1"
    using n by auto
  show ?case
    apply (rule exI [where x = s'])
    apply (rule exI [where x = "[Ran (label job) tries (currentInterval (bkf s)),
                                  Printed (Ratelimit (label job) (currentInterval (bkf s))),
                                  Incremented STATS_RETRYOP] @ t"])
    using ih Suc.hyps(2) by (simp add: chainLoop.simps(2) step s1_def)
qed

lemma continuation_smaller:
  "size_option size (successCommand job) < Suc (size job)"
  "size_option size (failCommand job) < Suc (size job)"
  by (cases job; simp)+

lemma continuation_not_self:
  "successCommand job \<noteq> Some job" "failCommand job \<noteq> Some job"
  using continuation_smaller [of job] by (auto dest: arg_cong [where f = "size_option size"])

lemma chainLoop_not_run:
  "\<not> run s \<Longrightarrow> \<not> run (chainLoop E jo tries s)"
proof (induction E jo tries s rule: chainLoop.induct)
  case (1 E tries s)
  then show ?case by simp
next
  case (2 E job tries s)
  obtain jo tries' s' where step: "chainStep E job tries s = (jo, tries', s')"
    by (cases "chainStep E job tries s") auto
  then have "\<not> run s'"
    using 2(2)
    by (auto simp: chainStep_def failNode_def Let_def split: prod.splits option.splits if_splits)
  with 2(1) step show ?case
    by (simp add: chainLoop.simps(2))
qed

lemma workerLoop_not_run: "\<not> run s \<Longrightarrow> workerLoop E rs s = s"
  by (cases rs) simp_all

text \<open>
  Claim C1. A job whose action returns a rate-limit error on every attempt, run by a
  worker with retry budget \<open>R > 0\<close> while no sleep is canceled: the action is called
  exactly \<open>R + 1\<close> times, the retry counter is incremented exactly \<open>R\<close> times, the
  failure counter exactly once, and the loop goes on with the failure continuation of the
  job. The events \<open>t\<close> are those of this node alone.
\<close>

theorem always_ratelimited_job:
  fixes E :: "('e, 'w) env" and job :: "('e, 'w) Job" and s :: "'w worker"
  assumes "\<forall>p w. \<exists>e w'. Run job p w = (Some e, w') \<and> IsRatelimitError E e"
    and "\<forall>d w. fst (sleepSelect E d w)"
    and "0 < Retries (poolParams (wp s))"
  shows "\<exists>s' t. chainLoop E (Some job) 0 s = chainLoop E (failCommand job) 0 s'
          \<and> trace s' = trace s @ t
          \<and> attempts t = replicate (nat (Retries (poolParams (wp s))) + 1) (label job)
          \<and> int (count_list t (Incremented STATS_RETRYOP)) = Retries (poolParams (wp s))
          \<and> count_list t (Incremented STATS_FAIL) = 1
          \<and> run s' = run s"
proof -
  from assms(3) have "0 \<le> Retries (poolParams (wp s))"
    by simp
  from ratelimited_from [OF assms this]
  obtain s' t where "chainLoop E (Some job) 0 s = chainLoop E (failCommand job) 0 s'"
    "trace s' = trace s @ t"
    "attempts t = replicate (nat (Retries (poolParams (wp s))) + 1) (label job)"
    "count_list t (Incremented STATS_RETRYOP) = nat (Retries (poolParams (wp s)))"
    "count_list t (Incremented STATS_FAIL) = 1" "run s' = run s"
    by auto
  with assms(3) show ?thesis
    by (intro exI [where x = s'] exI [where x = t]) simp
qed

theorem always_ratelimited_job_witness:
  "(\<forall>p w. \<exists>e w'. Run throttled p w = (Some e, w') \<and> IsRatelimitError exEnv e)
   \<and> (\<forall>d w. fst (sleepSelect exEnv d w))
   \<and> 0 < Retries (poolParams (wp exWorker))
   \<and> (\<exists>s' t. chainLoop exEnv (Some throttled) 0 exWorker = chainLoop exEnv None 0 s'
          \<and> trace s' = t
          \<and> attempts t = [''cp a b'', ''cp a b'', ''cp a b'']
          \<and> int (count_list t (Incremented STATS_RETRYOP)) = 2
          \<and> count_list t (Incremented STATS_FAIL) = 1
          \<and> run s')"
proof -
  have h1: "\<forall>p w. \<exists>e w'. Run throttled p w = (Some e, w') \<and> IsRatelimitError exEnv e"
    by (simp add: throttled_def exEnv_def)
  have h2: "\<forall>d w. fst (sleepSelect exEnv d w)"
    by (simp add: exEnv_def)
  have h3: "0 < Retries (poolParams (wp exWorker))"
    by (simp add: exWorker_def)
  have e: "nat (Retries (poolParams (wp exWorker))) + 1 = 3" "trace exWorker = []"
    "run exWorker" "Retries (poolParams (wp exWorker)) = 2"
    "failCommand throttled = None" "label throttled = ''cp a b''"
    by (simp_all add: exWorker_def throttled_def)
  show ?thesis
    using h1 h2 h3 always_ratelimited_job [OF h1 h2 h3]
    by (simp add: e numeral_3_eq_3)
qed

text \<open>
  Claim C2. Let the action of a node return an error \<open>e\<close>. The loop keeps the node (runs
  it again) only when \<open>e\<close> is a rate-limit error, the retry budget is positive and
  \<^verbatim>\<open>tries\<close> is below it; under these conditions it does keep the node, with \<^verbatim>\<open>tries\<close>
  incremented, unless the sleep is canceled. An error that is no rate-limit error is
  terminal at once: the loop moves to the failure continuation after the error line and
  the failure counter, and so is every error when the retry budget is 0 (or negative).
\<close>

theorem retry_only_ratelimited:
  fixes E :: "('e, 'w) env" and job :: "('e, 'w) Job" and s :: "'w worker"
  assumes "Run job (wp s) (world s) = (Some e, w1)"
  shows "(fst (chainStep E job tries s) = Some job \<longrightarrow>
            IsRatelimitError E e \<and> 0 < Retries (poolParams (wp s))
            \<and> tries < Retries (poolParams (wp s)))
       \<and> (IsRatelimitError E e \<and> 0 < Retries (poolParams (wp s))
            \<and> tries < Retries (poolParams (wp s))
            \<and> fst (sleepSelect E (currentInterval (bkf s)) w1) \<longrightarrow>
            fst (chainStep E job tries s) = Some job
            \<and> fst (snd (chainStep E job tries s)) = tries + 1)
       \<and> (\<not> IsRatelimitError E e \<longrightarrow>
            chainStep E job tries s = (failCommand job, 0, terminalState E job tries e w1 s))
       \<and> (Retries (poolParams (wp s)) \<le> 0 \<longrightarrow>
            chainStep E job tries s = (failCommand job, 0, terminalState E job tries e w1 s))"
proof -
  let ?ok = "IsRatelimitError E e \<and> 0 < Retries (poolParams (wp s))
            \<and> tries < Retries (poolParams (wp s))"
  have terminal: "chainStep E job tries s = (failCommand job, 0, terminalState E job tries e w1 s)"
    if "\<not> ?ok"
    using chainStep_terminal [OF assms that] by (simp only: terminalState_def)
  have only: "?ok" if "fst (chainStep E job tries s) = Some job"
  proof (rule ccontr)
    assume "\<not> ?ok"
    from terminal [OF this] that have "failCommand job = Some job"
      by simp
    then show False
      using continuation_not_self(2) by blast
  qed
  have again: "fst (chainStep E job tries s) = Some job
            \<and> fst (snd (chainStep E job tries s)) = tries + 1"
    if a: "?ok \<and> fst (sleepSelect E (currentInterval (bkf s)) w1)"
  proof -
    from a obtain w2 where "sleepSelect E (currentInterval (bkf s)) w1 = (True, w2)"
      by (metis (full_types) prod.collapse)
    with a chainStep_retry [OF assms, of E tries w2] show ?thesis
      by simp
  qed
  have t1: "chainStep E job tries s = (failCommand job, 0, terminalState E job tries e w1 s)"
    if "\<not> IsRatelimitError E e"
    using that by (intro terminal) simp
  have t2: "chainStep E job tries s = (failCommand job, 0, terminalState E job tries e w1 s)"
    if "Retries (poolParams (wp s)) \<le> 0"
    using that by (intro terminal) simp
  show ?thesis
    using only again t1 t2 by blast
qed

theorem retry_only_ratelimited_witness:
  "Run throttled (wp exWorker) (world exWorker) = (Some SlowDown, 1)
   \<and> fst (chainStep exEnv throttled 0 exWorker) = Some throttled
   \<and> fst (snd (chainStep exEnv throttled 0 exWorker)) = 1
   \<and> Run missing (wp exWorker) (world exWorker) = (Some NoSuchKey, 1)
   \<and> chainStep exEnv missing 0 exWorker = (None, 0, terminalState exEnv missing 0 NoSuchKey 1 exWorker)"
proof -
  have h1: "Run throttled (wp exWorker) (world exWorker) = (Some SlowDown, 1)"
    by (simp add: ex_defs)
  have h2: "Run missing (wp exWorker) (world exWorker) = (Some NoSuchKey, 1)"
    by (simp add: ex_defs)
  have a: "IsRatelimitError exEnv SlowDown" "0 < Retries (poolParams (wp exWorker))"
    "fst (sleepSelect exEnv (currentInterval (bkf exWorker)) 1)"
    "\<not> IsRatelimitError exEnv NoSuchKey" "failCommand missing = None"
    by (simp_all add: ex_defs)
  have r: "fst (chainStep exEnv throttled 0 exWorker) = Some throttled
      \<and> fst (snd (chainStep exEnv throttled 0 exWorker)) = 0 + 1"
    using retry_only_ratelimited [OF h1, of exEnv 0] a by blast
  have m: "chainStep exEnv missing 0 exWorker
      = (failCommand missing, 0, terminalState exEnv missing 0 NoSuchKey 1 exWorker)"
    using retry_only_ratelimited [OF h2, of exEnv 0] a by blast
  show ?thesis
    using h1 h2 r m by (simp only: a(5) add_0 simp_thms)
qed

text \<open>
  Claim C3. The context is canceled while the worker sleeps before a retry of a
  rate-limited node: the node is not run again; the error line is printed and the failure
  counter incremented; the loop goes on with the failure continuation of the node, so the
  rest of the chain is processed; at the end of the chain \<^verbatim>\<open>run\<close> is false, and whatever
  the queue would still yield, the worker takes nothing more from it.
\<close>

theorem canceled_during_backoff:
  fixes E :: "('e, 'w) env" and job :: "('e, 'w) Job" and s :: "'w worker"
  assumes "Run job (wp s) (world s) = (Some e, w1)"
    and "IsRatelimitError E e"
    and "0 < Retries (poolParams (wp s))"
    and "tries < Retries (poolParams (wp s))"
    and "sleepSelect E (currentInterval (bkf s)) w1 = (False, w2)"
  shows "\<exists>s'. chainStep E job tries s = (failCommand job, 0, s')
          \<and> failCommand job \<noteq> Some job
          \<and> trace s' = trace s @ [Ran (label job) tries (currentInterval (bkf s)),
                                   Printed (Ratelimit (label job) (currentInterval (bkf s))),
                                   Printed (ERR (label job) (CleanupError E e)),
                                   Incremented STATS_FAIL]
          \<and> chainLoop E (Some job) tries s = chainLoop E (failCommand job) 0 s'
          \<and> \<not> run (chainLoop E (Some job) tries s)
          \<and> (\<forall>rs. workerLoop E rs (chainLoop E (Some job) tries s)
                    = chainLoop E (Some job) tries s)"
proof -
  define s' where "s' = s\<lparr>world := w2,
              trace := trace s @ [Ran (label job) tries (currentInterval (bkf s)),
                                  Printed (Ratelimit (label job) (currentInterval (bkf s))),
                                  Printed (ERR (label job) (CleanupError E e)),
                                  Incremented STATS_FAIL],
              bkf := Reset (bkf s),
              run := False\<rparr>"
  have step: "chainStep E job tries s = (failCommand job, 0, s')"
    unfolding s'_def by (rule chainStep_canceled [OF assms])
  then have loop: "chainLoop E (Some job) tries s = chainLoop E (failCommand job) 0 s'"
    by (simp add: chainLoop.simps(2))
  have "\<not> run s'"
    by (simp add: s'_def)
  then have stop: "\<not> run (chainLoop E (Some job) tries s)"
    unfolding loop by (rule chainLoop_not_run)
  have "trace s' = trace s @ [Ran (label job) tries (currentInterval (bkf s)),
                                   Printed (Ratelimit (label job) (currentInterval (bkf s))),
                                   Printed (ERR (label job) (CleanupError E e)),
                                   Incremented STATS_FAIL]"
    by (simp add: s'_def)
  moreover have "workerLoop E rs (chainLoop E (Some job) tries s)
                    = chainLoop E (Some job) tries s" for rs
    using stop by (rule workerLoop_not_run)
  ultimately show ?thesis
    using step loop stop continuation_not_self(2) [of job]
    by (intro exI [where x = s'] conjI allI)
qed

theorem canceled_during_backoff_witness:
  "Run move (wp exWorker) (world exWorker) = (Some SlowDown, 1)
   \<and> IsRatelimitError cancelEnv SlowDown
   \<and> 0 < Retries (poolParams (wp exWorker))
   \<and> 0 < Retries (poolParams (wp exWorker))
   \<and> sleepSelect cancelEnv (currentInterval (bkf exWorker)) 1 = (False, 1)
   \<and> (\<exists>s'. chainStep cancelEnv move 0 exWorker = (Some cleanup, 0, s')
          \<and> trace s' = [Ran ''mv a b'' 0 Second, Printed (Ratelimit ''mv a b'' Second),
                         Printed (ERR ''mv a b'' ''SlowDown''), Incremented STATS_FAIL]
          \<and> chainLoop cancelEnv (Some move) 0 exWorker = chainLoop cancelEnv (Some cleanup) 0 s'
          \<and> \<not> run (chainLoop cancelEnv (Some move) 0 exWorker)
          \<and> (\<forall>rs. workerLoop cancelEnv rs (chainLoop cancelEnv (Some move) 0 exWorker)
                    = chainLoop cancelEnv (Some move) 0 exWorker))"
proof -
  have h: "Run move (wp exWorker) (world exWorker) = (Some SlowDown, 1)"
    "IsRatelimitError cancelEnv SlowDown"
    "0 < Retries (poolParams (wp exWorker))"
    "0 < Retries (poolParams (wp exWorker))"
    "sleepSelect cancelEnv (currentInterval (bkf exWorker)) 1 = (False, 1)"
    by (simp_all add: ex_defs)
  have e: "failCommand move = Some cleanup" "label move = ''mv a b''"
    "currentInterval (bkf exWorker) = Second" "trace exWorker = []"
    "CleanupError cancelEnv SlowDown = ''SlowDown''"
    by (simp_all add: ex_defs)
  from canceled_during_backoff [OF h] obtain s' where
    "chainStep cancelEnv move 0 exWorker = (Some cleanup, 0, s')"
    "trace s' = [Ran ''mv a b'' 0 Second, Printed (Ratelimit ''mv a b'' Second),
                 Printed (ERR ''mv a b'' ''SlowDown''), Incremented STATS_FAIL]"
    "chainLoop cancelEnv (Some move) 0 exWorker = chainLoop cancelEnv (Some cleanup) 0 s'"
    "\<not> run (chainLoop cancelEnv (Some move) 0 exWorker)"
    "\<forall>rs. workerLoop cancelEnv rs (chainLoop cancelEnv (Some move) 0 exWorker)
                    = chainLoop cancelEnv (Some move) 0 exWorker"
    unfolding e by auto
  with h show ?thesis
    by blast
qed

lemma chainStep_cases:
  fixes E :: "('e, 'w) env" and job :: "('e, 'w) Job" and s :: "'w worker"
  obtains
    (success) w1 where "Run job (wp s) (world s) = (None, w1)"
      and "chainStep E job tries s =
           (successCommand job, 0,
            s\<lparr>world := w1,
              trace := trace s @ [Ran (label job) tries (currentInterval (bkf s)),
                                  Printed (OK (label job))],
              bkf := Reset (bkf s)\<rparr>)"
  | (terminal) e w1 where "Run job (wp s) (world s) = (Some e, w1)"
      and "\<not> (IsRatelimitError E e \<and> Retries (poolParams (wp s)) > 0
              \<and> tries < Retries (poolParams (wp s)))"
      and "chainStep E job tries s =
           (failCommand job, 0,
            s\<lparr>world := w1,
              trace := trace s @ [Ran (label job) tries (currentInterval (bkf s)),
                                  Printed (ERR (label job) (CleanupError E e)),
                                  Incremented STATS_FAIL],
              bkf := Reset (bkf s)\<rparr>)"
  | (retry) e w1 w2 where "Run job (wp s) (world s) = (Some e, w1)"
      and "IsRatelimitError E e" and "Retries (poolParams (wp s)) > 0"
      and "tries < Retries (poolParams (wp s))"
      and "sleepSelect E (currentInterval (bkf s)) w1 = (True, w2)"
      and "chainStep E job tries s =
           (Some job, tries + 1,
            s\<lparr>world := w2,
              trace := trace s @ [Ran (label job) tries (currentInterval (bkf s)),
                                  Printed (Ratelimit (label job) (currentInterval (bkf s))),
                                  Incremented STATS_RETRYOP],
              bkf := snd (NextBackOff (bkf s))\<rparr>)"
  | (canceled) e w1 w2 where "Run job (wp s) (world s) = (Some e, w1)"
      and "IsRatelimitError E e" and "Retries (poolParams (wp s)) > 0"
      and "tries < Retries (poolParams (wp s))"
      and "sleepSelect E (currentInterval (bkf s)) w1 = (False, w2)"
      and "chainStep E job tries s =
           (failCommand job, 0,
            s\<lparr>world := w2,
              trace := trace s @ [Ran (label job) tries (currentInterval (bkf s)),
                                  Printed (Ratelimit (label job) (currentInterval (bkf s))),
                                  Printed (ERR (label job) (CleanupError E e)),
                                  Incremented STATS_FAIL],
              bkf := Reset (bkf s),
              run := False\<rparr>)"
proof -
  obtain err w1 where r: "Run job (wp s) (world s) = (err, w1)"
    by (cases "Run job (wp s) (world s)") auto
  show thesis
  proof (cases err)
    case None
    with r have r0: "Run job (wp s) (world s) = (None, w1)"
      by simp
    from success [OF r0 chainStep_success [OF r0]] show ?thesis .
  next
    case (Some e)
    with r have r': "Run job (wp s) (world s) = (Some e, w1)"
      by simp
    show ?thesis
    proof (cases "IsRatelimitError E e \<and> Retries (poolParams (wp s)) > 0
              \<and> tries < Retries (poolParams (wp s))")
      case False
      from terminal [OF r' False chainStep_terminal [OF r' False]] show ?thesis .
    next
      case True
      then have c: "IsRatelimitError E e" "0 < Retries (poolParams (wp s))"
        "tries < Retries (poolParams (wp s))"
        by simp_all
      obtain b w2 where sl: "sleepSelect E (currentInterval (bkf s)) w1 = (b, w2)"
        by (cases "sleepSelect E (currentInterval (bkf s)) w1") auto
      show ?thesis
      proof (cases b)
        case True
        with sl have sl': "sleepSelect E (currentInterval (bkf s)) w1 = (True, w2)"
          by simp
        from retry [OF r' c sl' chainStep_retry [OF r' c sl']] show ?thesis .
      next
        case False
        with sl have sl': "sleepSelect E (currentInterval (bkf s)) w1 = (False, w2)"
          by simp
        from canceled [OF r' c sl' chainStep_canceled [OF r' c sl']] show ?thesis .
      qed
    qed
  qed
qed

text \<open>
  Claim C5. A node is resolved by exactly one continuation, chosen when its outcome is
  known. When the action succeeds, the rest of the loop is the loop over the success
  continuation, after the line \<open>OK\<close>. When the action fails and the node is not kept
  for a retry, the rest of the loop is the loop over the failure continuation, after the
  error line and the failure counter. When the node is kept for a retry, neither line is
  printed and no continuation is taken. The loop over the nil pointer does nothing: the
  worker is back at its \<^verbatim>\<open>select\<close>.
\<close>

theorem one_continuation:
  fixes E :: "('e, 'w) env" and job :: "('e, 'w) Job" and s :: "'w worker"
  shows "(Run job (wp s) (world s) = (None, w1) \<longrightarrow>
            chainLoop E (Some job) tries s =
              chainLoop E (successCommand job) 0
                (s\<lparr>world := w1,
                   trace := trace s @ [Ran (label job) tries (currentInterval (bkf s)),
                                       Printed (OK (label job))],
                   bkf := Reset (bkf s)\<rparr>))
       \<and> (Run job (wp s) (world s) = (Some e, w1)
            \<and> fst (chainStep E job tries s) \<noteq> Some job \<longrightarrow>
            (\<exists>s'. chainLoop E (Some job) tries s = chainLoop E (failCommand job) 0 s'
               \<and> trace s' = trace s @ Ran (label job) tries (currentInterval (bkf s))
                      # (if IsRatelimitError E e \<and> 0 < Retries (poolParams (wp s))
                            \<and> tries < Retries (poolParams (wp s))
                         then [Printed (Ratelimit (label job) (currentInterval (bkf s)))]
                         else [])
                      @ [Printed (ERR (label job) (CleanupError E e)), Incremented STATS_FAIL]))
       \<and> (fst (chainStep E job tries s) = Some job \<longrightarrow>
            (\<exists>s'. chainLoop E (Some job) tries s = chainLoop E (Some job) (tries + 1) s'
               \<and> trace s' = trace s @ [Ran (label job) tries (currentInterval (bkf s)),
                      Printed (Ratelimit (label job) (currentInterval (bkf s))),
                      Incremented STATS_RETRYOP]))
       \<and> chainLoop E None tries s = s"
proof -
  have ok: "chainLoop E (Some job) tries s =
              chainLoop E (successCommand job) 0
                (s\<lparr>world := w1,
                   trace := trace s @ [Ran (label job) tries (currentInterval (bkf s)),
                                       Printed (OK (label job))],
                   bkf := Reset (bkf s)\<rparr>)"
    if "Run job (wp s) (world s) = (None, w1)"
    by (simp add: chainLoop.simps(2) chainStep_success [OF that])
  have failed: "\<exists>s'. chainLoop E (Some job) tries s = chainLoop E (failCommand job) 0 s'
               \<and> trace s' = trace s @ Ran (label job) tries (currentInterval (bkf s))
                      # (if IsRatelimitError E e \<and> 0 < Retries (poolParams (wp s))
                            \<and> tries < Retries (poolParams (wp s))
                         then [Printed (Ratelimit (label job) (currentInterval (bkf s)))]
                         else [])
                      @ [Printed (ERR (label job) (CleanupError E e)), Incremented STATS_FAIL]"
    if r: "Run job (wp s) (world s) = (Some e, w1)"
      and n: "fst (chainStep E job tries s) \<noteq> Some job"
  proof (cases rule: chainStep_cases [of job s E tries])
    case (success w1')
    with r show ?thesis by simp
  next
    case (terminal e' w1')
    with r have "e' = e" by simp
    with terminal show ?thesis
      by (intro exI [where x = "snd (snd (chainStep E job tries s))"])
        (simp add: chainLoop.simps(2))
  next
    case (retry e' w1' w2)
    with n show ?thesis by simp
  next
    case (canceled e' w1' w2)
    with r have "e' = e" by simp
    with canceled show ?thesis
      by (intro exI [where x = "snd (snd (chainStep E job tries s))"])
        (simp add: chainLoop.simps(2))
  qed
  have again: "\<exists>s'. chainLoop E (Some job) tries s = chainLoop E (Some job) (tries + 1) s'
               \<and> trace s' = trace s @ [Ran (label job) tries (currentInterval (bkf s)),
                      Printed (Ratelimit (label job) (currentInterval (bkf s))),
                      Incremented STATS_RETRYOP]"
    if k: "fst (chainStep E job tries s) = Some job"
  proof (cases rule: chainStep_cases [of job s E tries])
    case (success w1')
    with k continuation_not_self(1) [of job] show ?thesis by simp
  next
    case (terminal e' w1')
    with k continuation_not_self(2) [of job] show ?thesis by simp
  next
    case (retry e' w1' w2)
    then show ?thesis
      by (intro exI [where x = "snd (snd (chainStep E job tries s))"])
        (simp add: chainLoop.simps(2))
  next
    case (canceled e' w1' w2)
    with k continuation_not_self(2) [of job] show ?thesis by simp
  qed
  show ?thesis
    using ok failed again by simp
qed

theorem one_continuation_witness:
  "Run copy (wp exWorker) (world exWorker) = (None, 1)
   \<and> chainLoop exEnv (Some copy) 0 exWorker =
       chainLoop exEnv (Some report) 0
         (exWorker\<lparr>world := 1,
            trace := [Ran ''cp c d'' 0 Second, Printed (OK ''cp c d'')],
            bkf := Reset (bkf exWorker)\<rparr>)
   \<and> trace (chainLoop exEnv (Some copy) 0 exWorker) =
       [Ran ''cp c d'' 0 Second, Printed (OK ''cp c d''),
        Ran ''ls b'' 0 Second, Printed (OK ''ls b'')]
   \<and> Run broken (wp exWorker) (world exWorker) = (Some NoSuchKey, 1)
   \<and> fst (chainStep exEnv broken 0 exWorker) \<noteq> Some broken
   \<and> (\<exists>s'. chainLoop exEnv (Some broken) 0 exWorker = chainLoop exEnv (Some cleanup) 0 s'
         \<and> trace s' = [Ran ''cp e f'' 0 Second, Printed (ERR ''cp e f'' ''NoSuchKey''),
                        Incremented STATS_FAIL])"
proof -
  have h1: "Run copy (wp exWorker) (world exWorker) = (None, 1)"
    by (simp add: ex_defs)
  have h2: "Run broken (wp exWorker) (world exWorker) = (Some NoSuchKey, 1)"
    by (simp add: ex_defs broken_def)
  have h3: "fst (chainStep exEnv broken 0 exWorker) \<noteq> Some broken"
    by (simp add: chainStep_def failNode_def ex_defs broken_def)
  have e: "label copy = ''cp c d''" "successCommand copy = Some report"
    "currentInterval (bkf exWorker) = Second" "trace exWorker = []"
    "label broken = ''cp e f''" "failCommand broken = Some cleanup"
    "CleanupError exEnv NoSuchKey = ''NoSuchKey''" "\<not> IsRatelimitError exEnv NoSuchKey"
    by (simp_all add: ex_defs broken_def)
  have c1: "chainLoop exEnv (Some copy) 0 exWorker =
       chainLoop exEnv (Some report) 0
         (exWorker\<lparr>world := 1,
            trace := [Ran ''cp c d'' 0 Second, Printed (OK ''cp c d'')],
            bkf := Reset (bkf exWorker)\<rparr>)"
    using one_continuation [where job = copy and s = exWorker and ?w1.0 = 1 and E = exEnv and tries = 0] h1 by (simp add: e)
  have c2: "trace (chainLoop exEnv (Some copy) 0 exWorker) =
       [Ran ''cp c d'' 0 Second, Printed (OK ''cp c d''),
        Ran ''ls b'' 0 Second, Printed (OK ''ls b'')]"
    unfolding c1
    by (simp add: chainLoop.simps(2) chainStep_def report_def exWorker_def Reset_def)
  have c3: "\<exists>s'. chainLoop exEnv (Some broken) 0 exWorker = chainLoop exEnv (Some cleanup) 0 s'
         \<and> trace s' = [Ran ''cp e f'' 0 Second, Printed (ERR ''cp e f'' ''NoSuchKey''),
                        Incremented STATS_FAIL]"
    using one_continuation [where job = broken and s = exWorker and e = NoSuchKey and ?w1.0 = 1
        and E = exEnv and tries = 0] h2 h3
    by (auto simp add: e)
  show ?thesis
    using h1 h2 h3 c1 c2 c3 by blast
qed

subsection \<open>The backoff object along a run of a worker\<close>

lemma interval_0: "interval 0 = Second"
  by (simp add: interval_def Second_def Minute_def)

lemma interval_Suc: "interval (Suc k) = min (2 * interval k) Minute"
proof -
  define x where "x = Second * 2 ^ k"
  have "0 \<le> Minute"
    by (simp add: Minute_def Second_def)
  then have "min (2 * x) Minute = min (2 * min x Minute) Minute"
    by (simp add: min_def)
  then show ?thesis
    by (simp add: interval_def x_def mult.commute mult.left_commute)
qed

lemma interval_le_Minute: "interval k \<le> Minute"
  by (simp add: interval_def)

lemma interval_pos: "0 < interval k"
  by (simp add: interval_def Second_def Minute_def)

lemma interval_mono_Suc: "interval k \<le> interval (Suc k)"
  using interval_pos [of k] interval_le_Minute [of k] by (simp add: interval_Suc min_def)

lemma interval_mono: "i \<le> j \<Longrightarrow> interval i \<le> interval j"
  by (rule lift_Suc_mono_le [of interval]) (rule interval_mono_Suc)

lemma configured_Reset: "configured b \<Longrightarrow> configured (Reset b) \<and> currentInterval (Reset b) = interval 0"
  by (simp add: configured_def Reset_def interval_0)

lemma configured_Next:
  assumes "configured b" and "currentInterval b = interval k"
  shows "fst (NextBackOff b) = interval k" and "configured (snd (NextBackOff b))"
    and "currentInterval (snd (NextBackOff b)) = interval (Suc k)"
  using assms by (simp_all add: configured_def NextBackOff_def interval_Suc mult.commute)

lemma configured_new: "configured (newBackOff b0)" "currentInterval (newBackOff b0) = interval 0"
  by (simp_all add: newBackOff_def configured_def Reset_def interval_0)

lemma retrySleeps_nonempty: "retrySleeps acc es \<noteq> []"
  by (induction acc es rule: retrySleeps.induct) simp_all

lemma retrySleeps_append:
  "retrySleeps acc (xs @ ys) =
     butlast (retrySleeps acc xs) @ retrySleeps (last (retrySleeps acc xs)) ys"
  by (induction acc xs rule: retrySleeps.induct) (simp_all add: retrySleeps_nonempty)

lemma good_upto: "good (map interval [0..<n])"
  by (simp add: good_def)

lemma nodeInv_step:
  assumes inv: "nodeInv tries s" and step: "chainStep E job tries s = (jo, tries', s')"
  shows "nodeInv tries' s'"
proof -
  let ?rs = "retrySleeps [] (trace s)"
  from inv have t: "0 \<le> tries" and c: "configured (bkf s)"
    and cur: "currentInterval (bkf s) = interval (nat tries)"
    and att: "list_all attemptOK (trace s)"
    and closed: "list_all good (butlast ?rs)"
    and open_: "last ?rs = map interval [0..<nat tries]"
    by (simp_all add: nodeInv_def)
  have glast: "good (last ?rs)"
    unfolding open_ by (rule good_upto)
  have "list_all good (butlast ?rs @ [last ?rs])"
    using closed glast by simp
  then have all: "list_all good ?rs"
    by (simp add: retrySleeps_nonempty)
  have suc: "nat (tries + 1) = Suc (nat tries)"
    using t by simp
  note nx = configured_Next [OF c cur]
  note rr = configured_Reset [OF c]
  show ?thesis
  proof (cases rule: chainStep_cases [of job s E tries])
    case (success w1)
    with step have s': "s' = s\<lparr>world := w1,
              trace := trace s @ [Ran (label job) tries (currentInterval (bkf s)),
                                  Printed (OK (label job))],
              bkf := Reset (bkf s)\<rparr>" and "tries' = 0"
      by simp_all
    then show ?thesis
      using t cur att closed glast all rr
      by (simp add: nodeInv_def retrySleeps_append retrySleeps_nonempty butlast_append)
  next
    case (terminal e w1)
    with step have s': "s' = s\<lparr>world := w1,
              trace := trace s @ [Ran (label job) tries (currentInterval (bkf s)),
                                  Printed (ERR (label job) (CleanupError E e)),
                                  Incremented STATS_FAIL],
              bkf := Reset (bkf s)\<rparr>" and "tries' = 0"
      by simp_all
    then show ?thesis
      using t cur att closed glast all rr
      by (simp add: nodeInv_def retrySleeps_append retrySleeps_nonempty butlast_append)
  next
    case (retry e w1 w2)
    with step have s': "s' = s\<lparr>world := w2,
              trace := trace s @ [Ran (label job) tries (currentInterval (bkf s)),
                                  Printed (Ratelimit (label job) (currentInterval (bkf s))),
                                  Incremented STATS_RETRYOP],
              bkf := snd (NextBackOff (bkf s))\<rparr>" and "tries' = tries + 1"
      by simp_all
    then show ?thesis
      using t cur att closed open_ nx suc
      by (simp add: nodeInv_def retrySleeps_append retrySleeps_nonempty butlast_append)
  next
    case (canceled e w1 w2)
    with step have s': "s' = s\<lparr>world := w2,
              trace := trace s @ [Ran (label job) tries (currentInterval (bkf s)),
                                  Printed (Ratelimit (label job) (currentInterval (bkf s))),
                                  Printed (ERR (label job) (CleanupError E e)),
                                  Incremented STATS_FAIL],
              bkf := Reset (bkf s),
              run := False\<rparr>" and "tries' = 0"
      by simp_all
    have "good (map interval [0..<nat tries] @ [interval (nat tries)])"
      using good_upto [of "Suc (nat tries)"] by simp
    with s' \<open>tries' = 0\<close> show ?thesis
      using t cur att closed open_ rr
      by (simp add: nodeInv_def retrySleeps_append retrySleeps_nonempty butlast_append)
  qed
qed

lemma chainStep_resolved:
  assumes "chainStep E job tries s = (jo, tries', s')"
  shows "jo = Some job \<or> tries' = 0"
  using assms by (cases rule: chainStep_cases [of job s E tries]) simp_all

lemma nodeInv_chainLoop:
  "nodeInv tries s \<Longrightarrow> jo = None \<longrightarrow> tries = 0 \<Longrightarrow> nodeInv 0 (chainLoop E jo tries s)"
proof (induction E jo tries s rule: chainLoop.induct)
  case (1 E tries s)
  then show ?case by simp
next
  case (2 E job tries s)
  obtain jo tries' s' where step: "chainStep E job tries s = (jo, tries', s')"
    by (cases "chainStep E job tries s") auto
  have "nodeInv tries' s'"
    using "2.prems"(1) step by (rule nodeInv_step)
  moreover have "jo = None \<longrightarrow> tries' = 0"
    using chainStep_resolved [OF step] by auto
  ultimately have "nodeInv 0 (chainLoop E jo tries' s')"
    using "2.IH" step by simp
  then show ?case
    by (simp add: chainLoop.simps(2) step)
qed

lemma nodeInv_run: "nodeInv tries (s\<lparr>run := b\<rparr>) = nodeInv tries s"
  by (simp add: nodeInv_def)

lemma nodeInv_workerLoop: "nodeInv 0 s \<Longrightarrow> nodeInv 0 (workerLoop E rs s)"
proof (induction rs arbitrary: s)
  case Nil
  then show ?case by simp
next
  case (Cons r rs)
  show ?case
  proof (cases r)
    case (Received jo)
    with Cons show ?thesis
      by (simp add: nodeInv_chainLoop)
  qed (use Cons in \<open>simp_all add: nodeInv_run\<close>)
qed

lemma nodeInv_runWorker:
  fixes w :: 'w
  shows "nodeInv 0 (fst (runWorker E ses ps b0 h rs w))"
proof -
  obtain wparams h' where n: "newWorkerParams ses ps h = (wparams, h')"
    by (cases "newWorkerParams ses ps h") auto
  define s0 :: "'w worker"
    where "s0 = \<lparr>wp = wparams, world = w, bkf = newBackOff b0, run = True, trace = []\<rparr>"
  have "nodeInv 0 s0"
    by (simp add: nodeInv_def s0_def configured_new)
  then have "nodeInv 0 (workerLoop E rs s0)"
    by (rule nodeInv_workerLoop)
  then have "nodeInv 0 (workerLoop E rs s0)
      \<and> nodeInv 0 ((workerLoop E rs s0)\<lparr>trace := trace (workerLoop E rs s0) @ [WgDone]\<rparr>)"
    by (simp add: nodeInv_def retrySleeps_append retrySleeps_nonempty butlast_append)
  then show ?thesis
    by (simp add: runWorker_def n s0_def Let_def)
qed

lemma good_properties:
  assumes "good ds"
  shows "(ds \<noteq> [] \<longrightarrow> hd ds = Second)
         \<and> (\<forall>k. Suc k < length ds \<longrightarrow> ds ! Suc k = min (2 * ds ! k) Minute)
         \<and> sorted ds
         \<and> (\<forall>d \<in> set ds. d \<le> Minute)"
proof -
  from assms have ds: "ds = map interval [0..<length ds]"
    by (simp add: good_def)
  have nth: "ds ! k = interval k" if "k < length ds" for k
    using that by (subst ds) simp
  have 1: "hd ds = Second" if "ds \<noteq> []"
    using that nth [of 0] by (simp add: hd_conv_nth interval_0)
  have 2: "ds ! Suc k = min (2 * ds ! k) Minute" if "Suc k < length ds" for k
    using that by (simp add: nth interval_Suc)
  have 3: "sorted ds"
    by (simp add: sorted_iff_nth_mono nth interval_mono)
  have 4: "d \<le> Minute" if "d \<in> set ds" for d
    using that nth interval_le_Minute by (metis in_set_conv_nth)
  from 1 2 3 4 show ?thesis
    by blast
qed

lemmas eval_defs = runWorker_def newWorkerParams_def construct_def newBackOff_def Reset_def
  chainLoop.simps(2) chainStep_def failNode_def NextBackOff_def Let_def Second_def Minute_def

lemma Reset_Reset: "Reset (Reset b) = Reset b"
  by (simp add: Reset_def)

lemma Reset_Next: "Reset (snd (NextBackOff b)) = Reset b"
  by (simp add: Reset_def NextBackOff_def)

lemma chainStep_bkf:
  assumes "chainStep E job tries s = (jo, tries', s')"
  shows "Reset (bkf s') = Reset (bkf s)" and "jo \<noteq> Some job \<Longrightarrow> bkf s' = Reset (bkf s)"
proof -
  show "Reset (bkf s') = Reset (bkf s)"
    using assms
    by (cases rule: chainStep_cases [of job s E tries]) (auto simp add: Reset_Reset Reset_Next)
  show "bkf s' = Reset (bkf s)" if "jo \<noteq> Some job"
    using assms that
    by (cases rule: chainStep_cases [of job s E tries]) auto
qed

lemma chainLoop_bkf: "jo \<noteq> None \<Longrightarrow> bkf (chainLoop E jo tries s) = Reset (bkf s)"
proof (induction E jo tries s rule: chainLoop.induct)
  case (1 E tries s)
  then show ?case by simp
next
  case (2 E job tries s)
  obtain jo tries' s' where step: "chainStep E job tries s = (jo, tries', s')"
    by (cases "chainStep E job tries s") auto
  show ?case
  proof (cases jo)
    case None
    then have "jo \<noteq> Some job"
      by simp
    from chainStep_bkf(2) [OF step this] None show ?thesis
      by (simp add: chainLoop.simps(2) step)
  next
    case (Some next_job)
    then have "bkf (chainLoop E jo tries' s') = Reset (bkf s')"
      using "2.IH" step by simp
    then show ?thesis
      by (simp add: chainLoop.simps(2) step chainStep_bkf(1) [OF step])
  qed
qed

text \<open>
  Claim C6. When a node is resolved, by success or by terminal failure, the loop goes on
  with \<^verbatim>\<open>tries\<close> at 0 and the backoff object reset, its current interval back at the
  initial interval. At the end of a chain the backoff object is reset as well, and the
  worker starts the next job it receives with \<^verbatim>\<open>tries\<close> at 0. In every run of a worker,
  each call of an action made with \<^verbatim>\<open>tries\<close> at 0 finds the current interval at one
  second.
\<close>

theorem backoff_reset_on_resolution:
  fixes w :: 'w and s :: "'w worker"
  shows "(chainStep E job tries s = (jo, tries', s') \<and> jo \<noteq> Some job \<longrightarrow>
            tries' = 0 \<and> bkf s' = Reset (bkf s)
            \<and> currentInterval (bkf s') = InitialInterval (bkf s))
       \<and> (chain \<noteq> None \<longrightarrow>
            bkf (chainLoop E chain tries s) = Reset (bkf s)
            \<and> (run s \<longrightarrow> workerLoop E (Received chain # rs) s
                             = workerLoop E rs (chainLoop E chain 0 s)))
       \<and> (\<forall>l c. Ran l 0 c \<in> set (trace (fst (runWorker E ses ps b0 h rs w))) \<longrightarrow> c = Second)"
proof -
  have 1: "tries' = 0 \<and> bkf s' = Reset (bkf s)
            \<and> currentInterval (bkf s') = InitialInterval (bkf s)"
    if "chainStep E job tries s = (jo, tries', s')" and "jo \<noteq> Some job"
    using chainStep_resolved [OF that(1)] chainStep_bkf(2) [OF that] that(2)
    by (simp add: Reset_def)
  have 2: "bkf (chainLoop E chain tries s) = Reset (bkf s)" if "chain \<noteq> None"
    using that by (rule chainLoop_bkf)
  have 3: "c = Second" if "Ran l 0 c \<in> set (trace (fst (runWorker E ses ps b0 h rs w)))" for l c
  proof -
    have "nodeInv 0 (fst (runWorker E ses ps b0 h rs w))"
      by (rule nodeInv_runWorker)
    then have "list_all attemptOK (trace (fst (runWorker E ses ps b0 h rs w)))"
      by (simp add: nodeInv_def)
    with that have "attemptOK (Ran l 0 c)"
      unfolding list_all_iff by (rule bspec [rotated])
    then show ?thesis
      by (simp add: interval_0)
  qed
  have 4: "workerLoop E (Received chain # rs) s = workerLoop E rs (chainLoop E chain 0 s)"
    if "run s"
    using that by simp
  from 1 2 3 4 show ?thesis
    by blast
qed

theorem backoff_reset_on_resolution_witness:
  "currentInterval (bkf midRetry) = 4 * Second
   \<and> fst (chainStep exEnv copy 2 midRetry) = Some report
   \<and> Some report \<noteq> Some copy
   \<and> fst (snd (chainStep exEnv copy 2 midRetry)) = 0
   \<and> currentInterval (bkf (snd (snd (chainStep exEnv copy 2 midRetry)))) = Second
   \<and> bkf (chainLoop exEnv (Some copy) 2 midRetry) = Reset (bkf midRetry)
   \<and> Ran ''rm b'' 0 Second \<in> set (trace (fst (runWorker exEnv 0 params8 zeroBackOff []
         [Received (Some move), QueueClosed] 0)))"
proof -
  have a: "currentInterval (bkf midRetry) = 4 * Second"
    "InitialInterval (bkf midRetry) = Second"
    by (simp_all add: midRetry_def exWorker_def)
  have b: "fst (chainStep exEnv copy 2 midRetry) = Some report"
    by (simp add: chainStep_def copy_def)
  have c: "Some report \<noteq> Some copy"
    by (simp add: report_def copy_def)
  have step: "chainStep exEnv copy 2 midRetry
      = (Some report, fst (snd (chainStep exEnv copy 2 midRetry)),
         snd (snd (chainStep exEnv copy 2 midRetry)))"
    using b by (metis prod.collapse)
  note T = backoff_reset_on_resolution [where E = exEnv and job = copy and tries = 2
      and s = midRetry and jo = "Some report"
      and tries' = "fst (snd (chainStep exEnv copy 2 midRetry))"
      and s' = "snd (snd (chainStep exEnv copy 2 midRetry))" and chain = "Some copy"]
  from T step c have d: "fst (snd (chainStep exEnv copy 2 midRetry)) = 0"
    "currentInterval (bkf (snd (snd (chainStep exEnv copy 2 midRetry)))) = Second"
    unfolding a(2) by blast+
  from T have e: "bkf (chainLoop exEnv (Some copy) 2 midRetry) = Reset (bkf midRetry)"
    by blast
  have f: "Ran ''rm b'' 0 Second \<in> set (trace (fst (runWorker exEnv 0 params8 zeroBackOff []
         [Received (Some move), QueueClosed] 0)))"
    by (simp add: eval_defs exEnv_def move_def cleanup_def report_def params8_def zeroBackOff_def)
  from a(1) b c d e f show ?thesis
    by (intro conjI)
qed

text \<open>
  Claim C7. In every run of a worker, the sleep times of the consecutive retries of one
  node start at one second, each next one is twice the one before, capped at one minute,
  they never decrease and none exceeds one minute. The sleep time is what the model of
  \<^verbatim>\<open>NextBackOff\<close> returns.
\<close>

theorem backoff_sleep_intervals:
  fixes w :: 'w
  shows "\<forall>ds \<in> set (retrySleeps [] (trace (fst (runWorker E ses ps b0 h rs w)))).
           (ds \<noteq> [] \<longrightarrow> hd ds = Second)
         \<and> (\<forall>k. Suc k < length ds \<longrightarrow> ds ! Suc k = min (2 * ds ! k) Minute)
         \<and> sorted ds
         \<and> (\<forall>d \<in> set ds. d \<le> Minute)"
proof
  fix ds
  let ?rs = "retrySleeps [] (trace (fst (runWorker E ses ps b0 h rs w)))"
  assume "ds \<in> set ?rs"
  have inv: "nodeInv 0 (fst (runWorker E ses ps b0 h rs w))"
    by (rule nodeInv_runWorker)
  then have "list_all good (butlast ?rs @ [last ?rs])"
    by (simp add: nodeInv_def good_def)
  then have "list_all good ?rs"
    by (simp add: retrySleeps_nonempty)
  with \<open>ds \<in> set ?rs\<close> have "good ds"
    by (simp add: list_all_iff)
  then show "(ds \<noteq> [] \<longrightarrow> hd ds = Second)
         \<and> (\<forall>k. Suc k < length ds \<longrightarrow> ds ! Suc k = min (2 * ds ! k) Minute)
         \<and> sorted ds
         \<and> (\<forall>d \<in> set ds. d \<le> Minute)"
    by (rule good_properties)
qed

theorem backoff_sleep_intervals_witness:
  "retrySleeps [] (trace (fst (runWorker exEnv 0 params8 zeroBackOff []
       [Received (Some throttled), QueueClosed] 0)))
     = [[1000000000, 2000000000, 4000000000, 8000000000, 16000000000, 32000000000,
         60000000000, 60000000000], []]
   \<and> hd [1000000000, 2000000000, 4000000000, 8000000000, 16000000000, 32000000000,
         60000000000, 60000000000 :: int] = Second
   \<and> sorted [1000000000, 2000000000, 4000000000, 8000000000, 16000000000, 32000000000,
         60000000000, 60000000000 :: int]
   \<and> [1000000000, 2000000000, 4000000000, 8000000000, 16000000000, 32000000000,
         60000000000, 60000000000 :: int] ! 6 = min (2 * 32000000000) Minute"
proof -
  let ?ds = "[1000000000, 2000000000, 4000000000, 8000000000, 16000000000, 32000000000,
         60000000000, 60000000000 :: int]"
  have ev: "retrySleeps [] (trace (fst (runWorker exEnv 0 params8 zeroBackOff []
       [Received (Some throttled), QueueClosed] 0))) = [?ds, []]"
    by (simp add: eval_defs exEnv_def throttled_def params8_def zeroBackOff_def)
  have "?ds \<in> set (retrySleeps [] (trace (fst (runWorker exEnv 0 params8 zeroBackOff []
       [Received (Some throttled), QueueClosed] 0))))"
    unfolding ev by simp
  note P = bspec [OF backoff_sleep_intervals this]
  from P have a: "hd ?ds = Second"
    by simp
  from P have b: "sorted ?ds"
    by blast
  from P have "\<forall>k. Suc k < length ?ds \<longrightarrow> ?ds ! Suc k = min (2 * ?ds ! k) Minute"
    by blast
  from this [rule_format, of 5] have c: "?ds ! 6 = min (2 * 32000000000) Minute"
    by simp
  from ev a b c show ?thesis
    by (intro conjI)
qed

subsection \<open>The feeder\<close>

lemma syncEvents_append: "syncEvents (xs @ ys) = syncEvents xs @ syncEvents ys"
  by (induction xs rule: syncEvents.induct) simp_all

lemma singleRun_cases:
  assumes "\<not> jobQueueClosed p"
  obtains (parse_error) err where "ParseJob F line = Inl err"
      and "singleRun F line sel p =
             Returned (True, p\<lparr>events := events p @
                        [Print (ERR line (ErrorText F err)), Increment STATS_FAIL]\<rparr>)"
  | (aborted) job where "ParseJob F line = Inr job" and "sel = TakeDone"
      and "singleRun F line sel p = Returned (False, p)"
  | (sent) job where "ParseJob F line = Inr job" and "sel = TakeSend"
      and "singleRun F line sel p = Returned (True, p\<lparr>events := events p @ [Send job]\<rparr>)"
  using assms
  by (cases "ParseJob F line"; cases sel) (auto simp: singleRun_def)

lemma feedLoop_result:
  assumes "\<not> jobQueueClosed p"
  shows "\<exists>closed p' evs. feedLoop F ls final p = Returned (closed, p')
           \<and> events p' = events p @ evs
           \<and> jobQueueClosed p' = closed
           \<and> syncEvents evs = (if closed then [Close] else [])
           \<and> (closed \<longleftrightarrow> final = EOF \<and> (\<forall>l \<in> set ls. snd l = TakeDone \<longrightarrow> (\<exists>e. ParseJob F (fst l) = Inl e)))"
  using assms
proof (induction ls arbitrary: p)
  case Nil
  then show ?case
    by (cases final) (auto simp add: closeQueue_def andThen_def)
next
  case (Cons a ls)
  obtain line sel where a: "a = (line, sel)"
    by (cases a) auto
  from Cons.prems show ?case
  proof (cases rule: singleRun_cases [of p F line sel])
    case (parse_error err)
    define p1 where "p1 = p\<lparr>events := events p @
                        [Print (ERR line (ErrorText F err)), Increment STATS_FAIL]\<rparr>"
    have "\<not> jobQueueClosed p1"
      using Cons.prems by (simp add: p1_def)
    from Cons.IH [OF this] obtain closed p' evs where
      "feedLoop F ls final p1 = Returned (closed, p')" "events p' = events p1 @ evs"
      "jobQueueClosed p' = closed" "syncEvents evs = (if closed then [Close] else [])"
      "closed \<longleftrightarrow> final = EOF \<and> (\<forall>l \<in> set ls. snd l = TakeDone \<longrightarrow> (\<exists>e. ParseJob F (fst l) = Inl e))"
      by blast
    with parse_error show ?thesis
      apply (intro exI [where x = closed] exI [where x = p']
          exI [where x = "[Print (ERR line (ErrorText F err)), Increment STATS_FAIL] @ evs"])
      by (simp add: a andThen_def p1_def syncEvents_append)
  next
    case (aborted job)
    then show ?thesis
      apply (intro exI [where x = False] exI [where x = p] exI [where x = "[]"])
      using Cons.prems by (auto simp add: a andThen_def)
  next
    case (sent job)
    define p1 where "p1 = p\<lparr>events := events p @ [Send job]\<rparr>"
    have "\<not> jobQueueClosed p1"
      using Cons.prems by (simp add: p1_def)
    from Cons.IH [OF this] obtain closed p' evs where
      "feedLoop F ls final p1 = Returned (closed, p')" "events p' = events p1 @ evs"
      "jobQueueClosed p' = closed" "syncEvents evs = (if closed then [Close] else [])"
      "closed \<longleftrightarrow> final = EOF \<and> (\<forall>l \<in> set ls. snd l = TakeDone \<longrightarrow> (\<exists>e. ParseJob F (fst l) = Inl e))"
      by blast
    with sent show ?thesis
      apply (intro exI [where x = closed] exI [where x = p']
          exI [where x = "[Send job] @ evs"])
      by (simp add: a andThen_def p1_def syncEvents_append)
  qed
qed

lemma aborted_iff:
  "aborted F l \<longleftrightarrow> \<not> (snd l = TakeDone \<longrightarrow> (\<exists>e. ParseJob F (fst l) = Inl e))"
  by (cases "ParseJob F (fst l)") (auto simp: aborted_def)

lemma feed_result:
  assumes "\<not> jobQueueClosed p"
  shows "\<exists>p' evs. feed F r p = Returned p'
           \<and> events p' = events p @ evs
           \<and> jobQueueClosed p'
           \<and> syncEvents evs =
               (if ending r = EOF \<and> \<not> (\<exists>l \<in> set (lines r). aborted F l)
                then [Close, Wait] else [Wait, Close])"
proof -
  from feedLoop_result [OF assms, of F "lines r" "ending r"]
  obtain closed p1 evs where fl: "feedLoop F (lines r) (ending r) p = Returned (closed, p1)"
    and ev: "events p1 = events p @ evs"
    and cl: "jobQueueClosed p1 = closed"
    and sy: "syncEvents evs = (if closed then [Close] else [])"
    and iff: "closed \<longleftrightarrow> ending r = EOF
        \<and> (\<forall>l \<in> set (lines r). snd l = TakeDone \<longrightarrow> (\<exists>e. ParseJob F (fst l) = Inl e))"
    by blast
  have iff': "closed \<longleftrightarrow> ending r = EOF \<and> \<not> (\<exists>l \<in> set (lines r). aborted F l)"
    unfolding iff by (simp add: aborted_iff)
  show ?thesis
  proof (cases closed)
    case True
    with fl cl sy have "feedLoop F (lines r) (ending r) p = Returned (True, p1)"
      "jobQueueClosed p1" "syncEvents evs = [Close]"
      by simp_all
    moreover from True iff' have "ending r = EOF \<and> \<not> (\<exists>l \<in> set (lines r). aborted F l)"
      by simp
    ultimately show ?thesis
      using ev
      apply (intro exI [where x = "wgWait p1"] exI [where x = "evs @ [Wait]"])
      by (simp add: feed_def andThen_def wgWait_def syncEvents_append)
  next
    case False
    with fl cl sy have "feedLoop F (lines r) (ending r) p = Returned (False, p1)"
      "\<not> jobQueueClosed p1" "syncEvents evs = []"
      by simp_all
    moreover from False iff' have "\<not> (ending r = EOF \<and> \<not> (\<exists>l \<in> set (lines r). aborted F l))"
      by simp
    ultimately show ?thesis
      using ev
      apply (intro exI [where x = "(wgWait p1)\<lparr>jobQueueClosed := True,
                events := events (wgWait p1) @ [Close]\<rparr>"] exI [where x = "evs @ [Wait, Close]"])
      by (simp add: feed_def andThen_def wgWait_def closeQueue_def syncEvents_append)
  qed
qed

lemmas pool_defs = Run_pool_def feed_def andThen_def singleRun_def closeQueue_def wgWait_def
  exF_def exPool_def exStdin_def exFile_def exFs_def

lemma workerLoop_stops:
  "QueueClosed \<in> set rs \<or> CtxDone \<in> set rs \<Longrightarrow> \<not> run (workerLoop E rs s)"
proof (induction rs arbitrary: s)
  case Nil
  then show ?case by simp
next
  case (Cons r rs)
  show ?case
  proof (cases "run s")
    case False
    then show ?thesis by simp
  next
    case True
    show ?thesis
    proof (cases r)
      case (Received jo)
      with Cons True show ?thesis by simp
    next
      case QueueClosed
      with True show ?thesis by (simp add: workerLoop_not_run)
    next
      case CtxDone
      with True show ?thesis by (simp add: workerLoop_not_run)
    qed
  qed
qed

lemma runWorker_done:
  fixes w :: 'w
  shows "run (fst (runWorker E ses ps b0 h rs w))
           = run (workerLoop E rs \<lparr>wp = fst (newWorkerParams ses ps h), world = w,
                                  bkf = newBackOff b0, run = True, trace = []\<rparr>)"
    and "\<not> run (fst (runWorker E ses ps b0 h rs w))
           \<Longrightarrow> last (trace (fst (runWorker E ses ps b0 h rs w))) = WgDone"
  by (simp_all add: runWorker_def Let_def split: prod.splits if_splits)

text \<open>
  Claim C4. The streaming run, started on an open queue with a reader that could be
  opened, returns with the queue closed, after closing it exactly once and calling
  \<^verbatim>\<open>p.wg.Wait()\<close> exactly once. When the feed loop stops on end-of-input, the queue is
  closed first and the wait follows. When the loop stops otherwise (the reader reports
  the canceled context or another error, or a submission is cut short by the canceled
  context), the wait comes first and the queue, not yet closed, is closed after it. The
  call of \<^verbatim>\<open>p.wg.Wait()\<close> is an event of the pool; it returns in the program when every
  worker has called \<^verbatim>\<open>p.wg.Done()\<close>. The second part is about that: a worker whose
  \<^verbatim>\<open>select\<close> yields the closed queue or the canceled context at some point leaves its
  loop, and its last act is the call of \<^verbatim>\<open>p.wg.Done()\<close>.
\<close>

theorem Run_closes_and_waits:
  assumes "\<not> jobQueueClosed p"
    and "filename = ''-'' \<and> r = stdin \<or> filename \<noteq> ''-'' \<and> fs filename = Inr r"
  shows "(\<exists>p' evs. Run_pool F filename stdin fs p = Returned p'
           \<and> events p' = events p @ evs
           \<and> jobQueueClosed p'
           \<and> syncEvents evs =
               (if ending r = EOF \<and> \<not> (\<exists>l \<in> set (lines r). aborted F l)
                then [Close, Wait] else [Wait, Close]))
       \<and> (QueueClosed \<in> set rs \<or> CtxDone \<in> set rs \<longrightarrow>
            \<not> run (fst (runWorker E ses ps b0 h rs w))
            \<and> last (trace (fst (runWorker E ses ps b0 h rs w))) = WgDone)"
proof -
  have worker: "\<not> run (fst (runWorker E ses ps b0 h rs w))
            \<and> last (trace (fst (runWorker E ses ps b0 h rs w))) = WgDone"
    if "QueueClosed \<in> set rs \<or> CtxDone \<in> set rs"
  proof -
    have "\<not> run (fst (runWorker E ses ps b0 h rs w))"
      using workerLoop_stops [OF that] by (simp add: runWorker_done(1))
    then show ?thesis
      by (simp add: runWorker_done(2))
  qed
  from feed_result [OF assms(1), of F r]
  obtain p' evs where f: "feed F r p = Returned p'" "events p' = events p @ evs"
    "jobQueueClosed p'"
    "syncEvents evs =
               (if ending r = EOF \<and> \<not> (\<exists>l \<in> set (lines r). aborted F l)
                then [Close, Wait] else [Wait, Close])"
    by blast
  from assms(2) show ?thesis
  proof
    assume "filename = ''-'' \<and> r = stdin"
    with f have "\<exists>p' evs. Run_pool F filename stdin fs p = Returned p'
           \<and> events p' = events p @ evs
           \<and> jobQueueClosed p'
           \<and> syncEvents evs =
               (if ending r = EOF \<and> \<not> (\<exists>l \<in> set (lines r). aborted F l)
                then [Close, Wait] else [Wait, Close])"
      by (intro exI [where x = p'] exI [where x = evs]) (simp add: Run_pool_def)
    with worker show ?thesis
      by blast
  next
    assume "filename \<noteq> ''-'' \<and> fs filename = Inr r"
    with f have "\<exists>p' evs. Run_pool F filename stdin fs p = Returned p'
           \<and> events p' = events p @ evs
           \<and> jobQueueClosed p'
           \<and> syncEvents evs =
               (if ending r = EOF \<and> \<not> (\<exists>l \<in> set (lines r). aborted F l)
                then [Close, Wait] else [Wait, Close])"
      by (intro exI [where x = "p'\<lparr>events := events p' @ [CloseFile]\<rparr>"]
          exI [where x = "evs @ [CloseFile]"])
        (simp add: Run_pool_def andThen_def syncEvents_append)
    with worker show ?thesis
      by blast
  qed
qed

theorem Run_closes_and_waits_witness:
  "\<not> jobQueueClosed exPool
   \<and> exFs ''jobs.txt'' = Inr exFile
   \<and> Run_pool exF ''-'' exStdin exFs exPool =
       Returned (exPool\<lparr>jobQueueClosed := True,
         events := [Send (Some copy), Print (ERR ''??'' ''unknown command''),
                    Increment STATS_FAIL, Close, Wait]\<rparr>)
   \<and> Run_pool exF ''jobs.txt'' exStdin exFs exPool =
       Returned (exPool\<lparr>jobQueueClosed := True,
         events := [Send (Some copy), Wait, Close, CloseFile]\<rparr>)
   \<and> (\<exists>p' evs. Run_pool exF ''jobs.txt'' exStdin exFs exPool = Returned p'
         \<and> events p' = evs \<and> jobQueueClosed p' \<and> syncEvents evs = [Wait, Close])
   \<and> \<not> run (fst (runWorker exEnv 0 params8 zeroBackOff [] [Received (Some copy), CtxDone] 0))
   \<and> last (trace (fst (runWorker exEnv 0 params8 zeroBackOff []
             [Received (Some copy), CtxDone] 0))) = WgDone"
proof -
  have h1: "\<not> jobQueueClosed exPool"
    by (simp add: exPool_def)
  have h2: "exFs ''jobs.txt'' = Inr exFile"
    by (simp add: exFs_def)
  have h3: "''jobs.txt'' = ''-'' \<and> exFile = exStdin
      \<or> ''jobs.txt'' \<noteq> ''-'' \<and> exFs ''jobs.txt'' = Inr exFile"
    using h2 by simp
  have a: "aborted exF (''mv a b'', TakeDone)" "events exPool = []"
    by (simp_all add: aborted_def exF_def exPool_def)
  then have b: "\<exists>l \<in> set (lines exFile). aborted exF l"
    by (simp add: exFile_def)
  have r1: "Run_pool exF ''-'' exStdin exFs exPool =
       Returned (exPool\<lparr>jobQueueClosed := True,
         events := [Send (Some copy), Print (ERR ''??'' ''unknown command''),
                    Increment STATS_FAIL, Close, Wait]\<rparr>)"
    by (simp add: pool_defs)
  have r2: "Run_pool exF ''jobs.txt'' exStdin exFs exPool =
       Returned (exPool\<lparr>jobQueueClosed := True,
         events := [Send (Some copy), Wait, Close, CloseFile]\<rparr>)"
    by (simp add: pool_defs)
  note T = Run_closes_and_waits [where p = exPool and filename = "''jobs.txt''" and r = exFile
      and stdin = exStdin and fs = exFs and F = exF and E = exEnv and ses = 0 and ps = params8
      and ?b0.0 = zeroBackOff and h = "[]" and rs = "[Received (Some copy), CtxDone]" and w = 0,
      OF h1 h3]
  from T [THEN conjunct1] b a(2)
  have r3: "\<exists>p' evs. Run_pool exF ''jobs.txt'' exStdin exFs exPool = Returned p'
         \<and> events p' = evs \<and> jobQueueClosed p' \<and> syncEvents evs = [Wait, Close]"
    by simp
  from T [THEN conjunct2]
  have r4: "\<not> run (fst (runWorker exEnv 0 params8 zeroBackOff []
             [Received (Some copy), CtxDone] 0))"
    "last (trace (fst (runWorker exEnv 0 params8 zeroBackOff []
             [Received (Some copy), CtxDone] 0))) = WgDone"
    by simp_all
  from h1 h2 r1 r2 r3 r4 show ?thesis
    by (intro conjI)
qed

text \<open>
  Claim C8. A line that parses to a job is submitted through a \<^verbatim>\<open>select\<close> between the
  canceled context and the send to the queue. When the context wins, \<^verbatim>\<open>singleRun\<close>
  returns false and the pool is as before: nothing was sent, and the feed loop stops
  without submitting any further line. When the send is taken on the open queue, the job
  is sent once and \<^verbatim>\<open>singleRun\<close> returns true. A worker gets its jobs from the queue
  only (line 92 of \<^verbatim>\<open>runWorker\<close>, the event \<open>Received\<close>).
\<close>

theorem submit_aborts_on_cancel:
  assumes "ParseJob F line = Inr job"
  shows "(sel = TakeDone \<longrightarrow>
            singleRun F line sel p = Returned (False, p)
            \<and> feedLoop F ((line, sel) # rest) final p = Returned (False, p))
       \<and> (sel = TakeSend \<and> \<not> jobQueueClosed p \<longrightarrow>
            singleRun F line sel p = Returned (True, p\<lparr>events := events p @ [Send job]\<rparr>))"
  using assms by (simp add: singleRun_def andThen_def)

theorem submit_aborts_on_cancel_witness:
  "ParseJob exF ''mv a b'' = Inr (Some move)
   \<and> singleRun exF ''mv a b'' TakeDone exPool = Returned (False, exPool)
   \<and> feedLoop exF [(''mv a b'', TakeDone), (''cp c d'', TakeSend)] EOF exPool
       = Returned (False, exPool)
   \<and> \<not> jobQueueClosed exPool
   \<and> singleRun exF ''mv a b'' TakeSend exPool
       = Returned (True, exPool\<lparr>events := events exPool @ [Send (Some move)]\<rparr>)"
proof -
  have h: "ParseJob exF ''mv a b'' = Inr (Some move)"
    by (simp add: exF_def)
  have o: "\<not> jobQueueClosed exPool"
    by (simp add: exPool_def)
  from submit_aborts_on_cancel [OF h, of TakeDone exPool "[(''cp c d'', TakeSend)]" EOF]
  have a: "singleRun exF ''mv a b'' TakeDone exPool = Returned (False, exPool)"
    "feedLoop exF [(''mv a b'', TakeDone), (''cp c d'', TakeSend)] EOF exPool
       = Returned (False, exPool)"
    by (simp_all add: andThen_def)
  from submit_aborts_on_cancel [OF h, of TakeSend exPool] o
  have b: "singleRun exF ''mv a b'' TakeSend exPool
       = Returned (True, exPool\<lparr>events := events exPool @ [Send (Some move)]\<rparr>)"
    by simp
  from h a o b show ?thesis
    by (intro conjI)
qed

subsection \<open>Constructing the pool\<close>

lemma goRunWorker_eq:
  "goRunWorker p =
     p\<lparr>workers := workers p @ [\<lparr>s3svc = length (store p), s3dl = Suc (length (store p)),
                                 s3ul = Suc (Suc (length (store p))), poolParams = params p\<rparr>],
       store := store p @ [S3Client (awsSession p), Downloader (awsSession p),
                           Uploader (awsSession p) (ChunkSizeBytes (params p))]\<rparr>"
  by (simp add: goRunWorker_def newWorkerParams_def construct_def)

lemma goRunWorker_inv:
  assumes "poolInv n0 p"
  shows "poolInv n0 (goRunWorker (p\<lparr>wg := wg p + 1\<rparr>))"
proof -
  let ?n = "length (store p)"
  from assms have n0: "n0 \<le> ?n"
    and d: "distinct (concat (map handles (workers p)))"
    and r: "\<forall>w \<in> set (workers p). \<forall>a \<in> set (handles w). n0 \<le> a \<and> a < ?n"
    and o: "\<forall>w \<in> set (workers p). ownResources p w"
    by (simp_all add: poolInv_def)
  have old: "a < ?n" if "a \<in> set (concat (map handles (workers p)))" for a
    using that r by auto
  have fresh: "?n \<notin> set (concat (map handles (workers p)))"
    "Suc ?n \<notin> set (concat (map handles (workers p)))"
    "Suc (Suc ?n) \<notin> set (concat (map handles (workers p)))"
    using old by fastforce+
  have own: "ownResources (goRunWorker (p\<lparr>wg := wg p + 1\<rparr>)) w" if "w \<in> set (workers p)" for w
  proof -
    from that r have "s3svc w < ?n" "s3dl w < ?n" "s3ul w < ?n"
      by (auto simp: handles_def)
    with o that show ?thesis
      by (simp add: ownResources_def goRunWorker_eq nth_append)
  qed
  show ?thesis
    unfolding poolInv_def
  proof (intro conjI)
    show "n0 \<le> length (store (goRunWorker (p\<lparr>wg := wg p + 1\<rparr>)))"
      using n0 by (simp add: goRunWorker_eq)
    show "distinct (concat (map handles (workers (goRunWorker (p\<lparr>wg := wg p + 1\<rparr>)))))"
      using d fresh by (simp add: goRunWorker_eq handles_def)
    show "\<forall>w \<in> set (workers (goRunWorker (p\<lparr>wg := wg p + 1\<rparr>))).
            \<forall>a \<in> set (handles w). n0 \<le> a
              \<and> a < length (store (goRunWorker (p\<lparr>wg := wg p + 1\<rparr>)))"
      using r n0 by (auto simp add: goRunWorker_eq handles_def)
    show "\<forall>w \<in> set (workers (goRunWorker (p\<lparr>wg := wg p + 1\<rparr>))).
            ownResources (goRunWorker (p\<lparr>wg := wg p + 1\<rparr>)) w"
    proof
      fix w
      assume "w \<in> set (workers (goRunWorker (p\<lparr>wg := wg p + 1\<rparr>)))"
      then have "w \<in> set (workers p)
        \<or> w = \<lparr>s3svc = ?n, s3dl = Suc ?n, s3ul = Suc (Suc ?n), poolParams = params p\<rparr>"
        by (auto simp add: goRunWorker_eq)
      then show "ownResources (goRunWorker (p\<lparr>wg := wg p + 1\<rparr>)) w"
      proof
        assume "w \<in> set (workers p)"
        then show ?thesis by (rule own)
      next
        assume "w = \<lparr>s3svc = ?n, s3dl = Suc ?n, s3ul = Suc (Suc ?n), poolParams = params p\<rparr>"
        then show ?thesis
          by (simp add: ownResources_def goRunWorker_eq nth_append)
      qed
    qed
  qed
qed

lemma goRunWorker_fields:
  "params (goRunWorker p) = params p" "awsSession (goRunWorker p) = awsSession p"
  "wg (goRunWorker p) = wg p" "length (workers (goRunWorker p)) = Suc (length (workers p))"
  "take (length (store p)) (store (goRunWorker p)) = store p"
  "length (store p) \<le> length (store (goRunWorker p))"
  "jobQueueClosed (goRunWorker p) = jobQueueClosed p" "events (goRunWorker p) = events p"
  by (simp_all add: goRunWorker_eq)

lemma spawnLoop_inv: "poolInv n0 p \<Longrightarrow> poolInv n0 (spawnLoop i n p)"
proof (induction i n p rule: spawnLoop.induct)
  case (1 i n p)
  show ?case
  proof (cases "i < n")
    case True
    with 1 show ?thesis
      by (subst spawnLoop.simps) (simp add: goRunWorker_inv)
  next
    case False
    with 1 show ?thesis
      by (subst spawnLoop.simps) simp
  qed
qed

lemma spawnLoop_fields:
  "params (spawnLoop i n p) = params p \<and> awsSession (spawnLoop i n p) = awsSession p
   \<and> wg (spawnLoop i n p) = wg p + max 0 (n - i)
   \<and> length (workers (spawnLoop i n p)) = length (workers p) + nat (n - i)
   \<and> length (store p) \<le> length (store (spawnLoop i n p))
   \<and> take (length (store p)) (store (spawnLoop i n p)) = store p
   \<and> jobQueueClosed (spawnLoop i n p) = jobQueueClosed p
   \<and> events (spawnLoop i n p) = events p"
proof (induction i n p rule: spawnLoop.induct)
  case (1 i n p)
  show ?case
  proof (cases "i < n")
    case True
    let ?q = "goRunWorker (p\<lparr>wg := wg p + 1\<rparr>)"
    from True 1 have ih: "params (spawnLoop (i + 1) n ?q) = params ?q"
      "awsSession (spawnLoop (i + 1) n ?q) = awsSession ?q"
      "wg (spawnLoop (i + 1) n ?q) = wg ?q + max 0 (n - (i + 1))"
      "length (workers (spawnLoop (i + 1) n ?q)) = length (workers ?q) + nat (n - (i + 1))"
      "length (store ?q) \<le> length (store (spawnLoop (i + 1) n ?q))"
      "take (length (store ?q)) (store (spawnLoop (i + 1) n ?q)) = store ?q"
      "jobQueueClosed (spawnLoop (i + 1) n ?q) = jobQueueClosed ?q"
      "events (spawnLoop (i + 1) n ?q) = events ?q"
      by simp_all
    have eq: "spawnLoop i n p = spawnLoop (i + 1) n ?q"
      using True by (subst spawnLoop.simps) simp
    have le: "length (store p) \<le> length (store ?q)"
      by (simp add: goRunWorker_eq)
    have "take (length (store p)) (store (spawnLoop (i + 1) n ?q))
        = take (length (store p)) (take (length (store ?q)) (store (spawnLoop (i + 1) n ?q)))"
      using le by (simp add: min_def)
    also have "\<dots> = store p"
      unfolding ih(6) by (simp add: goRunWorker_eq)
    finally have tk: "take (length (store p)) (store (spawnLoop (i + 1) n ?q)) = store p" .
    from True ih(1-5,7,8) tk le show ?thesis
      unfolding eq by (simp add: goRunWorker_fields nat_diff_distrib')
  next
    case False
    then show ?thesis
      by (subst (1 2 3 4 5 6 7 8) spawnLoop.simps) simp
  qed
qed

text \<open>
  Claim C9. A pool that \<^verbatim>\<open>NewWorkerPool\<close> returns has started exactly \<^verbatim>\<open>NumWorkers\<close>
  workers (none when that number is not positive) and has added each of them to the wait
  group. The service client, the downloader and the uploader of each worker are objects
  constructed for that worker: the addresses of all workers' resources are pairwise
  distinct, none of them existed in the store before the call, and the objects that did
  exist are untouched. All the resources are built from the one session of the pool.
\<close>

theorem NewWorkerPool_workers:
  assumes "NewWorkerPool ctx ps ses h = Returned p"
  shows "length (workers p) = nat (NumWorkers ps)
       \<and> wg p = max 0 (NumWorkers ps)
       \<and> distinct (concat (map handles (workers p)))
       \<and> (\<forall>w \<in> set (workers p). \<forall>a \<in> set (handles w). length h \<le> a \<and> a < length (store p))
       \<and> (\<forall>w \<in> set (workers p). ownResources p w)
       \<and> params p = ps
       \<and> take (length h) (store p) = h"
proof -
  from assms obtain s c where ses: "ses = Inr s" and c: "ctx ''cancelFunc'' = Some (CancelFunc c)"
    by (auto simp: NewWorkerPool_def split: sum.splits option.splits ctx_value.splits)
  define p0 :: "('a, 'b) WorkerPool" where
    "p0 = \<lparr>params = ps, awsSession = s, cancelFunc = c, wg = 0,
           jobQueueClosed = False, events = [], workers = [], store = h\<rparr>"
  from assms have p: "p = spawnLoop 0 (NumWorkers ps) p0"
    by (simp add: NewWorkerPool_def ses c p0_def)
  have "poolInv (length h) p0"
    by (simp add: poolInv_def p0_def)
  then have "poolInv (length h) p"
    unfolding p by (rule spawnLoop_inv)
  moreover note spawnLoop_fields [of 0 "NumWorkers ps" p0]
  ultimately show ?thesis
    unfolding p by (simp add: poolInv_def p0_def)
qed

theorem NewWorkerPool_workers_witness:
  "NewWorkerPool goodContext params3 (Inr 7) [] = Returned builtPool
   \<and> length (workers builtPool) = 3
   \<and> wg builtPool = 3
   \<and> distinct (concat (map handles (workers builtPool)))
   \<and> map handles (workers builtPool) = [[0, 1, 2], [3, 4, 5], [6, 7, 8]]"
proof -
  have ev: "NewWorkerPool goodContext params3 (Inr 7) [] = Returned builtPool"
    by (simp add: NewWorkerPool_def goodContext_def params3_def builtPool_def
        spawnLoop.simps goRunWorker_eq)
  from NewWorkerPool_workers [OF ev]
  have "length (workers builtPool) = nat (NumWorkers params3)"
    "wg builtPool = max 0 (NumWorkers params3)"
    "distinct (concat (map handles (workers builtPool)))"
    by blast+
  moreover have "map handles (workers builtPool) = [[0, 1, 2], [3, 4, 5], [6, 7, 8]]"
    by (simp add: builtPool_def handles_def)
  ultimately show ?thesis
    using ev by (simp add: params3_def)
qed

text \<open>
  Claim C10, as stated: for every context that misses the key \<^verbatim>\<open>cancelFunc\<close>,
  construction panics. It does not when \<^verbatim>\<open>session.NewSession\<close> has failed: line 45
  ends the process through \<^verbatim>\<open>log.Fatal\<close> before the type assertion of line 48 is
  reached.
\<close>

theorem NewWorkerPool_bad_context_counterexample:
  "emptyContext ''cancelFunc'' = None
   \<and> NewWorkerPool emptyContext params3 (Inl ''no session'') []
       = (Fatal ''no session'' :: (string, (string, nat) WorkerPool) outcome)
   \<and> NewWorkerPool emptyContext params3 (Inl ''no session'') []
       \<noteq> (Panicked :: (string, (string, nat) WorkerPool) outcome)"
  by (simp add: NewWorkerPool_def emptyContext_def)

text \<open>
  Claim C10, amended. For every context that misses the key \<^verbatim>\<open>cancelFunc\<close> or holds a
  value of another type under it, construction never returns a pool, so that no pool is
  created and no worker started: it panics at the type assertion when the session was
  created, and it has left through \<^verbatim>\<open>log.Fatal\<close> when the session was not.
\<close>

theorem NewWorkerPool_bad_context:
  assumes "\<forall>c. ctx ''cancelFunc'' \<noteq> Some (CancelFunc c)"
  shows "NewWorkerPool ctx ps ses h = (case ses of Inl err \<Rightarrow> Fatal err | Inr s \<Rightarrow> Panicked)
       \<and> (\<forall>p. NewWorkerPool ctx ps ses h \<noteq> Returned p)"
  using assms
  by (auto simp: NewWorkerPool_def split: sum.splits option.splits ctx_value.splits)

theorem NewWorkerPool_bad_context_witness:
  "(\<forall>c. emptyContext ''cancelFunc'' \<noteq> Some (CancelFunc c))
   \<and> NewWorkerPool emptyContext params3 (Inr 7) []
       = (Panicked :: (string, (string, nat) WorkerPool) outcome)
   \<and> (\<forall>c. wrongContext ''cancelFunc'' \<noteq> Some (CancelFunc c))
   \<and> NewWorkerPool wrongContext params3 (Inr 7) []
       = (Panicked :: (string, (string, nat) WorkerPool) outcome)
   \<and> NewWorkerPool wrongContext params3 (Inl ''no session'') []
       = (Fatal ''no session'' :: (string, (string, nat) WorkerPool) outcome)"
proof -
  have h1: "\<forall>c. emptyContext ''cancelFunc'' \<noteq> Some (CancelFunc c)"
    by (simp add: emptyContext_def)
  have h2: "\<forall>c. wrongContext ''cancelFunc'' \<noteq> Some (CancelFunc c)"
    by (simp add: wrongContext_def)
  note e = NewWorkerPool_bad_context [where ctx = emptyContext, OF h1, THEN conjunct1]
  note w = NewWorkerPool_bad_context [where ctx = wrongContext, OF h2, THEN conjunct1]
  have a: "NewWorkerPool emptyContext params3 (Inr 7) []
       = (Panicked :: (string, (string, nat) WorkerPool) outcome)"
    by (simp add: e)
  have b: "NewWorkerPool wrongContext params3 (Inr 7) []
       = (Panicked :: (string, (string, nat) WorkerPool) outcome)"
    by (simp add: w)
  have c: "NewWorkerPool wrongContext params3 (Inl ''no session'') []
       = (Fatal ''no session'' :: (string, (string, nat) WorkerPool) outcome)"
    by (simp add: w)
  from h1 a h2 b c show ?thesis
    by (intro conjI)
qed

end
